theory Spec2Isabelle
  imports Complex_Main "HOL-Library.AList" "HOL-Library.Multiset"
begin

section \<open>JavaScript values used by the scoring engine of app.js\<close>

text \<open>
  The scoring engine of \<^verbatim>\<open>app.js\<close> (lines 66 to 196, and the ranking expression of
  the \<^verbatim>\<open>/match\<close> route, lines 262 to 274) is embedded function by function, under the
  names of the source.

  Numbers. A JavaScript number is an IEEE-754 double. The general theorems below are
  about exact arithmetic: a number is a real, or \<open>NaN\<close>. Rounding error, overflow and
  the infinities are not part of this model; the division, logarithm and square root
  of the source are only ever reached with a non-zero divisor, a positive argument and
  a non-negative argument. Where the rounding of doubles decides a claim, the function is
  given a second time in double arithmetic (section "Double precision").
\<close>

datatype jsnum = Num real | NaN

text \<open>
  What a property read \<^verbatim>\<open>o[k]\<close> can yield here: \<open>Undefined\<close>, a number, or
  \<open>Junk\<close>, which stands for a truthy value that is no number: a function or object
  inherited from \<^verbatim>\<open>Object.prototype\<close>, or the string that \<^verbatim>\<open>+\<close> makes of such a
  value and a number. Only its truthiness, its conversion to a number (NaN) and its
  behaviour under \<^verbatim>\<open>+\<close> (string concatenation) are observed by the program.
\<close>

datatype jsval = Undefined | Val jsnum | Junk

text \<open>\<^verbatim>\<open>ToNumber\<close>.\<close>

fun toNumber :: "jsval \<Rightarrow> jsnum" where
  "toNumber Undefined = NaN"
| "toNumber (Val n) = n"
| "toNumber Junk = NaN"

text \<open>\<^verbatim>\<open>ToBoolean\<close>: undefined, 0 and NaN are falsy.\<close>

fun truthy :: "jsval \<Rightarrow> bool" where
  "truthy Undefined = False"
| "truthy (Val (Num x)) = (x \<noteq> 0)"
| "truthy (Val NaN) = False"
| "truthy Junk = True"

text \<open>The idiom \<^verbatim>\<open>v || 0\<close>.\<close>

definition orZero :: "jsval \<Rightarrow> jsval" where
  "orZero v = (if truthy v then v else Val (Num 0))"

text \<open>Arithmetic on numbers: NaN is absorbing.\<close>

fun jadd :: "jsnum \<Rightarrow> jsnum \<Rightarrow> jsnum" where
  "jadd (Num a) (Num b) = Num (a + b)"
| "jadd _ _ = NaN"

fun jmul :: "jsnum \<Rightarrow> jsnum \<Rightarrow> jsnum" where
  "jmul (Num a) (Num b) = Num (a * b)"
| "jmul _ _ = NaN"

text \<open>
  Division, for a divisor that is not zero (the source guards or excludes a zero
  divisor at both of its divisions; a zero divisor would give an infinity, which this
  model does not have, and is mapped to NaN here).
\<close>

fun jdiv :: "jsnum \<Rightarrow> jsnum \<Rightarrow> jsnum" where
  "jdiv (Num a) (Num b) = (if b = 0 then NaN else Num (a / b))"
| "jdiv _ _ = NaN"

text \<open>\<^verbatim>\<open>Math.sqrt\<close> and \<^verbatim>\<open>Math.log\<close>: NaN on a negative argument.\<close>

fun jsqrt :: "jsnum \<Rightarrow> jsnum" where
  "jsqrt (Num a) = (if a < 0 then NaN else Num (sqrt a))"
| "jsqrt NaN = NaN"

fun jlog :: "jsnum \<Rightarrow> jsnum" where
  "jlog (Num a) = (if a \<le> 0 then NaN else Num (ln a))"
| "jlog NaN = NaN"

text \<open>
  The operator \<^verbatim>\<open>+\<close> with a number on the right: addition on a number, string
  concatenation (a non-numeric string) on a function, an object or such a string.
\<close>

fun jplus :: "jsval \<Rightarrow> real \<Rightarrow> jsval" where
  "jplus (Val n) w = Val (jadd n (Num w))"
| "jplus Undefined w = Val NaN"
| "jplus Junk w = Junk"

text \<open>
  \<^verbatim>\<open>Math.round\<close>: the integer nearest to the argument, a tie going up; NaN stays NaN.
  The result is an integer or NaN, written \<open>Some n\<close> or \<open>None\<close>.
\<close>

type_synonym jsint = "int option"

fun mathRound :: "jsnum \<Rightarrow> jsint" where
  "mathRound (Num x) = Some \<lfloor>x + 1 / 2\<rfloor>"
| "mathRound NaN = None"

fun ofJsint :: "jsint \<Rightarrow> jsnum" where
  "ofJsint (Some n) = Num (of_int n)"
| "ofJsint None = NaN"

section \<open>Plain objects used as dictionaries\<close>

text \<open>
  \<^verbatim>\<open>freq\<close>, \<^verbatim>\<open>tf\<close>, \<^verbatim>\<open>df\<close> and \<^verbatim>\<open>idf\<close> are object literals \<^verbatim>\<open>{}\<close>: their prototype is
  \<^verbatim>\<open>Object.prototype\<close>. An object is modelled by its own properties in the order of
  their creation.
\<close>

type_synonym jsobject = "(string \<times> jsval) list"

text \<open>The property names of \<^verbatim>\<open>Object.prototype\<close>.\<close>

definition objectPrototypeKeys :: "string list" where
  "objectPrototypeKeys =
     [''constructor'', ''__proto__'', ''hasOwnProperty'', ''isPrototypeOf'',
      ''propertyIsEnumerable'', ''toLocaleString'', ''toString'', ''valueOf'',
      ''__defineGetter__'', ''__defineSetter__'', ''__lookupGetter__'',
      ''__lookupSetter__'']"

text \<open>
  \<^verbatim>\<open>o[k]\<close>: the own property, else the inherited one (each of them a function, and
  \<^verbatim>\<open>__proto__\<close> the prototype object itself), else undefined.
\<close>

definition getProp :: "jsobject \<Rightarrow> string \<Rightarrow> jsval" where
  "getProp ob k =
     (case map_of ob k of
        Some v \<Rightarrow> v
      | None \<Rightarrow> if k \<in> set objectPrototypeKeys then Junk else Undefined)"

text \<open>
  \<^verbatim>\<open>o[k] = v\<close> for a value \<open>v\<close> that is a number or a string, as every value assigned in
  the source is. The inherited setter of \<^verbatim>\<open>__proto__\<close> ignores such a value, and no
  property is created. Any other name becomes (or stays) an own property.
\<close>

definition setProp :: "jsobject \<Rightarrow> string \<Rightarrow> jsval \<Rightarrow> jsobject" where
  "setProp ob k v = (if k = ''__proto__'' then ob else AList.update k v ob)"

text \<open>
  The order of \<^verbatim>\<open>Object.keys\<close> and \<^verbatim>\<open>Object.entries\<close>: first the names that are array
  indices (the decimal numeral of a number below \<open>2^32 - 1 = 4294967295\<close>, with no
  leading zero) in
  ascending numeric order, then the other names in the order of their creation.
\<close>

definition digitChars :: string where
  "digitChars = ''0123456789''"

definition digitVal :: "char \<Rightarrow> nat" where
  "digitVal c = length (takeWhile (\<lambda>d. d \<noteq> c) digitChars)"

definition decimalVal :: "string \<Rightarrow> nat" where
  "decimalVal s = foldl (\<lambda>n c. 10 * n + digitVal c) 0 s"

definition arrayIndex :: "string \<Rightarrow> nat option" where
  "arrayIndex s =
     (if s \<noteq> [] \<and> list_all (\<lambda>c. c \<in> set digitChars) s
         \<and> (hd s \<noteq> CHR ''0'' \<or> length s = 1) \<and> decimalVal s < 4294967295
      then Some (decimalVal s) else None)"

definition propertyOrder :: "string list \<Rightarrow> string list" where
  "propertyOrder ks =
     sort_key (\<lambda>k. the (arrayIndex k)) (filter (\<lambda>k. arrayIndex k \<noteq> None) ks)
     @ filter (\<lambda>k. arrayIndex k = None) ks"

definition ownKeys :: "jsobject \<Rightarrow> string list" where
  "ownKeys ob = propertyOrder (map fst ob)"

definition objectEntries :: "jsobject \<Rightarrow> (string \<times> jsval) list" where
  "objectEntries ob = map (\<lambda>k. (k, getProp ob k)) (ownKeys ob)"

text \<open>
  \<^verbatim>\<open>Array.from(new Set(xs))\<close> and the iteration of a \<^verbatim>\<open>Set\<close>: the distinct elements in
  the order of their first occurrence.
\<close>

definition setOf :: "'a list \<Rightarrow> 'a list" where
  "setOf xs = foldl (\<lambda>acc x. if x \<in> set acc then acc else acc @ [x]) [] xs"

text \<open>
  \<^verbatim>\<open>xs.sort((a, b) => key(b) - key(a))\<close>. A comparator result NaN counts as 0. With
  numeric keys the comparator is consistent and the sort, which is stable, is
  determined: descending keys, equal keys in their input order. With a NaN key the
  comparator is consistent only if all numeric keys are equal (every comparison is 0,
  and the array is left as it is); otherwise the order is implementation-defined,
  which is the result \<open>None\<close>.
\<close>

fun numOf :: "jsnum \<Rightarrow> real" where
  "numOf (Num x) = x"
| "numOf NaN = 0"

definition sortDescBy :: "('a \<Rightarrow> jsnum) \<Rightarrow> 'a list \<Rightarrow> 'a list option" where
  "sortDescBy key xs =
     (if list_all (\<lambda>x. key x \<noteq> NaN) xs then Some (sort_key (\<lambda>x. - numOf (key x)) xs)
      else if length (remdups (map key (filter (\<lambda>x. key x \<noteq> NaN) xs))) \<le> 1 then Some xs
      else None)"

section \<open>Text cleaning and tokenization\<close>

text \<open>
  The package \<^verbatim>\<open>natural\<close> is not part of the repository. The two things the source
  takes from it are parameters of the model: the method \<^verbatim>\<open>tokenize\<close> of its
  \<^verbatim>\<open>WordTokenizer\<close>, and its list \<^verbatim>\<open>stopwords\<close>, which may be missing
  (\<^verbatim>\<open>natural.stopwords || []\<close>).
\<close>

record naturalLib =
  tokenize :: "string \<Rightarrow> string list"
  stopwords :: "string list option"

definition stopWords :: "naturalLib \<Rightarrow> string list" where
  "stopWords L = (case stopwords L of None \<Rightarrow> [] | Some ws \<Rightarrow> ws)"

text \<open>
  \<^verbatim>\<open>s.replace(/[C]+/g, ' ')\<close> for a character class \<open>C\<close>: every maximal run of
  characters of the class becomes one space. The flag says whether the previous
  character was in the class.
\<close>

fun replaceRunsFrom :: "(char \<Rightarrow> bool) \<Rightarrow> bool \<Rightarrow> string \<Rightarrow> string" where
  "replaceRunsFrom C inRun [] = []"
| "replaceRunsFrom C inRun (c # cs) =
     (if C c then (if inRun then replaceRunsFrom C True cs
                   else CHR '' '' # replaceRunsFrom C True cs)
      else c # replaceRunsFrom C False cs)"

definition replaceRuns :: "(char \<Rightarrow> bool) \<Rightarrow> string \<Rightarrow> string" where
  "replaceRuns C s = replaceRunsFrom C False s"

text \<open>The class of the first pattern of the source, \<^verbatim>\<open>/[]+/g\<close>, is empty.\<close>

definition emptyClass :: "char \<Rightarrow> bool" where
  "emptyClass c = False"

text \<open>The class kept by the second pattern, \<^verbatim>\<open>/[^a-zA-Z0-9 #+\-_.]/g\<close>.\<close>

definition lowerLetters :: string where
  "lowerLetters = ''abcdefghijklmnopqrstuvwxyz''"

definition upperLetters :: string where
  "upperLetters = ''ABCDEFGHIJKLMNOPQRSTUVWXYZ''"

definition keptChars :: string where
  "keptChars = lowerLetters @ upperLetters @ digitChars @ '' #+-_.''"

text \<open>A character outside the class is replaced by a space.\<close>

definition blankOther :: "char \<Rightarrow> char" where
  "blankOther c = (if c \<in> set keptChars then c else CHR '' '')"

definition lowerChar :: "char \<Rightarrow> char" where
  "lowerChar c = (case map_of (zip upperLetters lowerLetters) c of Some l \<Rightarrow> l | None \<Rightarrow> c)"

text \<open>\<^verbatim>\<open>toLowerCase\<close>, on the ASCII text that the second replacement leaves.\<close>

definition toLowerCase :: "string \<Rightarrow> string" where
  "toLowerCase s = map lowerChar s"

text \<open>The text is \<open>None\<close> for \<^verbatim>\<open>null\<close> or \<^verbatim>\<open>undefined\<close>.\<close>

definition cleanAndTokenize :: "naturalLib \<Rightarrow> string option \<Rightarrow> string list" where
  "cleanAndTokenize L text =
     (case text of
        None \<Rightarrow> []
      | Some s \<Rightarrow>
          if s = [] then []
          else
            let lowered = toLowerCase (map blankOther (replaceRuns emptyClass s));
                tokens = tokenize L lowered
            in filter (\<lambda>t. length t > 2 \<and> t \<notin> set (stopWords L)) tokens)"

section \<open>Keyword extraction\<close>

definition ART_KEYWORDS :: "string list" where
  "ART_KEYWORDS =
     [''concept'', ''artist'', ''character'', ''2d'', ''illustration'', ''digital'',
      ''painting'', ''anatomy'', ''stylized'', ''environment'', ''sketch'', ''photoshop'',
      ''procreate'', ''color'', ''lighting'', ''render'', ''visual'', ''design'',
      ''composition'', ''story'', ''ideation'']"

text \<open>The statement \<^verbatim>\<open>o[t] = (o[t] || 0) + w\<close>.\<close>

definition bump :: "real \<Rightarrow> string \<Rightarrow> jsobject \<Rightarrow> jsobject" where
  "bump w t ob = setProp ob t (jplus (orZero (getProp ob t)) w)"

definition keywordWeight :: "string \<Rightarrow> real" where
  "keywordWeight t = (if t \<in> set ART_KEYWORDS then 4 else 1)"

definition keywordFreq :: "string list \<Rightarrow> jsobject" where
  "keywordFreq tokens = fold (\<lambda>t freq. bump (keywordWeight t) t freq) tokens []"

text \<open>
  The result is \<open>None\<close> when the order of the sort is implementation-defined (see
  \<open>sortDescBy\<close>). The limit is a natural number (25 at the only call, 20 by default).
\<close>

definition extractKeywords :: "naturalLib \<Rightarrow> string option \<Rightarrow> nat \<Rightarrow> string list option" where
  "extractKeywords L text limit =
     (let tokens = cleanAndTokenize L text;
          freq = keywordFreq tokens
      in map_option (\<lambda>sorted. map fst (take limit sorted))
           (sortDescBy (\<lambda>e. toNumber (snd e)) (objectEntries freq)))"

section \<open>Semantic similarity: TF-IDF and cosine\<close>

definition buildTermFreq :: "string list \<Rightarrow> jsobject" where
  "buildTermFreq docTokens = fold (\<lambda>t tf. bump 1 t tf) docTokens []"

text \<open>
  The document frequencies: each document adds one to every distinct token of its own.
\<close>

definition docFreq :: "string list list \<Rightarrow> jsobject" where
  "docFreq allDocsTokens =
     fold (\<lambda>tokens df. fold (\<lambda>t df. bump 1 t df) (setOf tokens) df) allDocsTokens []"

text \<open>The expression \<^verbatim>\<open>Math.log((N + 1) / (df[term] + 1)) + 1\<close>.\<close>

definition idfValue :: "nat \<Rightarrow> jsval \<Rightarrow> jsnum" where
  "idfValue N d =
     jadd (jlog (jdiv (Num (real N + 1)) (toNumber (jplus d 1)))) (Num 1)"

definition computeIdf :: "string list list \<Rightarrow> jsobject" where
  "computeIdf allDocsTokens =
     (let df = docFreq allDocsTokens;
          N = length allDocsTokens
      in fold (\<lambda>term idf. setProp idf term (Val (idfValue N (getProp df term))))
           (ownKeys df) [])"

definition tfidfVector :: "string list \<Rightarrow> jsobject \<Rightarrow> string list \<Rightarrow> jsnum list" where
  "tfidfVector docTokens idf vocab =
     (let tf = buildTermFreq docTokens
      in map (\<lambda>term. jmul (toNumber (orZero (getProp tf term)))
                           (toNumber (orZero (getProp idf term)))) vocab)"

text \<open>\<^verbatim>\<open>b[i]\<close>, undefined beyond the end of the array.\<close>

definition elemAt :: "jsnum list \<Rightarrow> nat \<Rightarrow> jsval" where
  "elemAt b i = (if i < length b then Val (b ! i) else Undefined)"

definition dotProduct :: "jsnum list \<Rightarrow> jsnum list \<Rightarrow> jsnum" where
  "dotProduct a b =
     foldl (\<lambda>s i. jadd s (jmul (a ! i) (toNumber (elemAt b i)))) (Num 0) [0 ..< length a]"

definition magnitude :: "jsnum list \<Rightarrow> jsnum" where
  "magnitude a = jsqrt (foldl (\<lambda>s x. jadd s (jmul x x)) (Num 0) a)"

definition cosineSimilarity :: "jsnum list \<Rightarrow> jsnum list \<Rightarrow> jsnum" where
  "cosineSimilarity vecA vecB =
     (let denom = jmul (magnitude vecA) (magnitude vecB)
      in if denom = Num 0 then Num 0
         else jdiv (dotProduct vecA vecB) denom)"

definition semanticSimilarity :: "naturalLib \<Rightarrow> string option \<Rightarrow> string option \<Rightarrow> jsint" where
  "semanticSimilarity L resumeText jobDescription =
     (let resumeTokens = cleanAndTokenize L resumeText;
          jobTokens = cleanAndTokenize L jobDescription
      in if length resumeTokens = 0 \<or> length jobTokens = 0 then Some 0
         else
           let allDocs = [resumeTokens, jobTokens];
               idf = computeIdf allDocs;
               vocab = setOf (resumeTokens @ jobTokens);
               vecA = tfidfVector resumeTokens idf vocab;
               vecB = tfidfVector jobTokens idf vocab;
               sim = cosineSimilarity vecA vecB
           in mathRound (jmul sim (Num 100)))"

section \<open>Hybrid match score\<close>

text \<open>The keyword list is \<open>None\<close> for \<^verbatim>\<open>null\<close> or \<^verbatim>\<open>undefined\<close>.\<close>

definition matchCount :: "string list \<Rightarrow> string list \<Rightarrow> nat" where
  "matchCount resumeTokens jobKeywords =
     length (filter (\<lambda>k. k \<in> set (setOf resumeTokens)) jobKeywords)"

definition keywordMatchPercentage :: "naturalLib \<Rightarrow> string option \<Rightarrow> string list option \<Rightarrow> jsint" where
  "keywordMatchPercentage L resumeText jobKeywords =
     (case jobKeywords of
        None \<Rightarrow> Some 0
      | Some ks \<Rightarrow>
          if length ks = 0 then Some 0
          else
            let matches = matchCount (cleanAndTokenize L resumeText) ks
            in mathRound (jmul (jdiv (Num (real matches)) (Num (real (length ks)))) (Num 100)))"

record job =
  jobId :: string
  title :: string
  company :: string
  description :: "string option"
  url :: "string option"
  location :: string
  keywordList :: "string list option"

record scores =
  final :: jsint
  kwScore :: jsint
  semScore :: jsint

definition finalMatchScore :: "naturalLib \<Rightarrow> string option \<Rightarrow> job \<Rightarrow> scores" where
  "finalMatchScore L resumeText j =
     (let kw = keywordMatchPercentage L resumeText
                 (Some (case keywordList j of None \<Rightarrow> [] | Some ks \<Rightarrow> ks));
          sem = semanticSimilarity L resumeText
                 (Some (case description j of None \<Rightarrow> [] | Some d \<Rightarrow> d));
          weightKw = 0.4;
          weightSem = 0.6
      in \<lparr> final = mathRound (jadd (jmul (ofJsint kw) (Num weightKw))
                                     (jmul (ofJsint sem) (Num weightSem))),
           kwScore = kw, semScore = sem \<rparr>)"

section \<open>The ranking of the route /match\<close>

text \<open>
  A score is written into a template string, \<^verbatim>\<open>`${scores.final}%`\<close>, and read back by
  \<^verbatim>\<open>parseInt\<close> in the comparator. An integer is printed in decimal digits (as JavaScript
  does below \<open>10^21\<close>), NaN as \<^verbatim>\<open>NaN\<close>.
\<close>

fun showNat :: "nat \<Rightarrow> string" where
  "showNat n = (if n < 10 then [digitChars ! n]
                else showNat (n div 10) @ [digitChars ! (n mod 10)])"

declare showNat.simps [simp del]

definition numberToString :: "jsint \<Rightarrow> string" where
  "numberToString x =
     (case x of
        None \<Rightarrow> ''NaN''
      | Some n \<Rightarrow> if n < 0 then CHR ''-'' # showNat (nat (- n)) else showNat (nat n))"

definition percent :: "jsint \<Rightarrow> string" where
  "percent x = numberToString x @ ''%''"

text \<open>
  \<^verbatim>\<open>parseInt\<close> of a string with no leading white space and no prefix \<^verbatim>\<open>0x\<close>: an
  optional sign, then the longest run of digits; NaN if there is no digit.
\<close>

definition parseInt :: "string \<Rightarrow> jsint" where
  "parseInt s =
     (let neg = (s \<noteq> [] \<and> hd s = CHR ''-'');
          body = (if s \<noteq> [] \<and> (hd s = CHR ''-'' \<or> hd s = CHR ''+'') then tl s else s);
          ds = takeWhile (\<lambda>c. c \<in> set digitChars) body
      in if ds = [] then None
         else Some (if neg then - int (decimalVal ds) else int (decimalVal ds)))"

record matchEntry =
  entryId :: string
  entryTitle :: string
  entryCompany :: string
  matchScore :: string
  keywordScore :: string
  semanticScore :: string
  entryUrl :: "string option"
  entryKeywords :: "string list option"

definition matchEntryOf :: "naturalLib \<Rightarrow> string option \<Rightarrow> job \<Rightarrow> matchEntry" where
  "matchEntryOf L resumeText j =
     (let sc = finalMatchScore L resumeText j
      in \<lparr> entryId = jobId j, entryTitle = title j, entryCompany = company j,
           matchScore = percent (final sc), keywordScore = percent (kwScore sc),
           semanticScore = percent (semScore sc), entryUrl = url j,
           entryKeywords = keywordList j \<rparr>)"

text \<open>
  The expression \<^verbatim>\<open>storedJobs.map(...).sort(...)\<close> of the route; \<open>None\<close> when the order
  of the sort is implementation-defined.
\<close>

definition matches :: "naturalLib \<Rightarrow> string option \<Rightarrow> job list \<Rightarrow> matchEntry list option" where
  "matches L resumeText storedJobs =
     sortDescBy (\<lambda>e. ofJsint (parseInt (matchScore e)))
       (map (matchEntryOf L resumeText) storedJobs)"

section \<open>The library used in examples, and the algorithms as the specification words them\<close>

text \<open>
  Modelled from the spec: the tokenizer and the stop-word list of the package
  \<^verbatim>\<open>natural\<close>, which the repository does not contain. The specification says "split
  on whitespace into raw tokens" and "a fixed stop-word list". \<open>exampleLib\<close> is used
  where a theorem is evaluated on a concrete text; the general theorems hold for any
  library.
\<close>

definition whitespaceChars :: string where
  "whitespaceChars = [CHR '' '', CHR 0x09, CHR 0x0A, CHR 0x0B, CHR 0x0C, CHR 0x0D]"

definition isWhitespace :: "char \<Rightarrow> bool" where
  "isWhitespace c = (c \<in> set whitespaceChars)"

text \<open>
  Splitting at the characters of a class; \<open>cur\<close> is the token being read. A run of
  separators gives no empty token.
\<close>

fun splitFrom :: "(char \<Rightarrow> bool) \<Rightarrow> string \<Rightarrow> string \<Rightarrow> string list" where
  "splitFrom C cur [] = (if cur = [] then [] else [cur])"
| "splitFrom C cur (c # cs) =
     (if C c then (if cur = [] then splitFrom C [] cs else cur # splitFrom C [] cs)
      else splitFrom C (cur @ [c]) cs)"

definition splitWhitespace :: "string \<Rightarrow> string list" where
  "splitWhitespace s = splitFrom isWhitespace [] s"

definition exampleStopWords :: "string list" where
  "exampleStopWords = [''and'', ''the'', ''with'', ''for'', ''are'', ''you'']"

definition exampleLib :: naturalLib where
  "exampleLib = \<lparr> tokenize = splitWhitespace, stopwords = Some exampleStopWords \<rparr>"

text \<open>
  The tokenizer in the words of the specification (section 4.1): collapse every run of
  whitespace to one space, strip (delete) every character outside the class, lowercase,
  split on whitespace, drop the tokens of length at most 2 and the stop words.
\<close>

definition tokenizeSpec :: "string list \<Rightarrow> string option \<Rightarrow> string list" where
  "tokenizeSpec stops text =
     (case text of
        None \<Rightarrow> []
      | Some s \<Rightarrow>
          filter (\<lambda>t. length t > 2 \<and> t \<notin> set stops)
            (splitWhitespace (toLowerCase
               (filter (\<lambda>c. c \<in> set keptChars) (replaceRuns isWhitespace s)))))"

text \<open>
  The same with "strip" read as the source has it: the character is replaced by a space.
\<close>

definition tokenizeBlanking :: "string list \<Rightarrow> string option \<Rightarrow> string list" where
  "tokenizeBlanking stops text =
     (case text of
        None \<Rightarrow> []
      | Some s \<Rightarrow>
          filter (\<lambda>t. length t > 2 \<and> t \<notin> set stops)
            (splitWhitespace (toLowerCase
               (map blankOther (replaceRuns isWhitespace s)))))"

text \<open>Predicates used in the proofs about counting with a plain object.\<close>

definition protoJunk :: "jsobject \<Rightarrow> bool" where
  "protoJunk ob = list_all (\<lambda>k. getProp ob k = Junk) objectPrototypeKeys"

definition counted :: "jsval \<Rightarrow> real \<Rightarrow> bool" where
  "counted v c = (if c = 0 then v = Undefined else v = Val (Num c))"

text \<open>
  How a call ends. No function of the scoring engine has a \<^verbatim>\<open>throw\<close>, and none of its
  operations raises on the values they meet here: a read beyond the end of an array is
  \<^verbatim>\<open>undefined\<close>, and arithmetic on \<^verbatim>\<open>undefined\<close> is NaN. A call of \<open>cosineSimilarity\<close>
  therefore always returns.
\<close>

datatype 'a completion = Returns 'a | Throws

definition cosineSimilarityCall :: "jsnum list \<Rightarrow> jsnum list \<Rightarrow> jsnum completion" where
  "cosineSimilarityCall vecA vecB = Returns (cosineSimilarity vecA vecB)"

text \<open>The Euclidean norm of a list of reals.\<close>

definition norm2 :: "real list \<Rightarrow> real" where
  "norm2 u = sqrt (sum_list (map (\<lambda>x. x * x) u))"

text \<open>
  The quantities of the specification (section 4.3) for a pair of documents: the number
  of the two documents that contain a term, the inverse document frequency
  \<open>ln ((N + 1) / (df + 1)) + 1\<close> with \<open>N = 2\<close>, and the weight of a term in a document.
\<close>

definition docCount :: "string list \<Rightarrow> string list \<Rightarrow> string \<Rightarrow> nat" where
  "docCount A B t = (if t \<in> set A then 1 else 0) + (if t \<in> set B then 1 else 0)"

definition idfOf :: "string list \<Rightarrow> string list \<Rightarrow> string \<Rightarrow> real" where
  "idfOf A B t = ln ((2 + 1) / (real (docCount A B t) + 1)) + 1"

definition tfidfOf :: "string list \<Rightarrow> string list \<Rightarrow> string list \<Rightarrow> string \<Rightarrow> real" where
  "tfidfOf D A B t = real (count_list D t) * idfOf A B t"

text \<open>A token that names a property of \<^verbatim>\<open>Object.prototype\<close>.\<close>

definition inheritedName :: "string \<Rightarrow> bool" where
  "inheritedName t = (t \<in> set objectPrototypeKeys)"

definition plainTokens :: "string list \<Rightarrow> bool" where
  "plainTokens ts = list_all (\<lambda>t. \<not> inheritedName t) ts"

text \<open>The positions of a list at which an element occurs for the first time.\<close>

definition firstSeen :: "'a list \<Rightarrow> 'a list" where
  "firstSeen xs = map (\<lambda>i. xs ! i) (filter (\<lambda>i. xs ! i \<notin> set (take i xs)) [0 ..< length xs])"

text \<open>
  The cosine of the two TF-IDF vectors of a pair of documents, over the vocabulary in
  first-seen order, in exact arithmetic.
\<close>

definition cosineOf :: "string list \<Rightarrow> string list \<Rightarrow> real" where
  "cosineOf A B =
     (let V = setOf (A @ B)
      in (\<Sum>t\<leftarrow>V. tfidfOf A A B t * tfidfOf B A B t)
         / (norm2 (map (tfidfOf A A B) V) * norm2 (map (tfidfOf B A B) V)))"

text \<open>A stored job with a given id, description and keyword list, for the examples.\<close>

definition jobWith :: "string \<Rightarrow> string \<Rightarrow> string list \<Rightarrow> job" where
  "jobWith i d ks =
     \<lparr> jobId = i, title = ''Artist'', company = ''Studio'', description = Some d,
       url = None, location = ''Remote'', keywordList = Some ks \<rparr>"

text \<open>What \<^verbatim>\<open>job.description || ''\<close> and \<^verbatim>\<open>job.keywords || []\<close> evaluate to.\<close>

definition descriptionOf :: "job \<Rightarrow> string" where
  "descriptionOf j = (case description j of None \<Rightarrow> [] | Some d \<Rightarrow> d)"

definition keywordsOf :: "job \<Rightarrow> string list" where
  "keywordsOf j = (case keywordList j of None \<Rightarrow> [] | Some ks \<Rightarrow> ks)"

text \<open>An integer score between 0 and 100.\<close>

definition percentage :: "jsint \<Rightarrow> bool" where
  "percentage x = (case x of None \<Rightarrow> False | Some n \<Rightarrow> 0 \<le> n \<and> n \<le> 100)"

text \<open>
  Keyword extraction in the words of the specification (section 4.2): the accumulated
  weight of a token is 4 per occurrence for a token of the domain vocabulary and 1 per
  occurrence otherwise; the distinct tokens are sorted by descending weight, in a given
  order for equal weights, and the first \<open>limit\<close> are taken. The specification takes the
  order of first occurrence for equal weights.
\<close>

definition accumulatedWeight :: "string list \<Rightarrow> string \<Rightarrow> real" where
  "accumulatedWeight ts t = keywordWeight t * real (count_list ts t)"

definition rankByWeight :: "string list \<Rightarrow> string list \<Rightarrow> nat \<Rightarrow> string list" where
  "rankByWeight ts order limit = take limit (sort_key (\<lambda>t. - accumulatedWeight ts t) order)"

definition extractKeywordsSpec :: "naturalLib \<Rightarrow> string option \<Rightarrow> nat \<Rightarrow> string list" where
  "extractKeywordsSpec L text limit =
     (let ts = cleanAndTokenize L text in rankByWeight ts (firstSeen ts) limit)"

definition noArrayIndex :: "string list \<Rightarrow> bool" where
  "noArrayIndex ts = list_all (\<lambda>t. arrayIndex t = None) ts"

section \<open>Double precision: rounding\<close>

text \<open>
  The arithmetic of the source in IEEE-754 double precision, for the results that fall
  in the normal range: an operation returns the double nearest to its exact result, a
  tie going to the even significand. A positive double of the normal range is
  \<open>m * 2^e\<close> with \<open>2^52 \<le> m < 2^53\<close>. Overflow, subnormal numbers, the infinities
  and NaN follow in the next section.
\<close>

definition roundToEven :: "real \<Rightarrow> int" where
  "roundToEven x =
     (let f = \<lfloor>x\<rfloor>; r = x - of_int f
      in if r < 1 / 2 then f else if 1 / 2 < r then f + 1
         else if even f then f else f + 1)"

text \<open>
  Scaling a positive number by powers of two into \<open>[2^52, 2^53)\<close>; the first argument
  bounds the number of steps (the exponents of doubles lie between -1074 and 1023).
\<close>

fun scaled :: "nat \<Rightarrow> real \<Rightarrow> int \<Rightarrow> real \<times> int" where
  "scaled n x e =
     (if n = 0 then (x, e)
      else if x < 2 ^ 52 then scaled (n - 1) (2 * x) (e - 1)
      else if 2 ^ 53 \<le> x then scaled (n - 1) (x / 2) (e + 1)
      else (x, e))"

declare scaled.simps [simp del]

definition fl :: "real \<Rightarrow> real" where
  "fl x =
     (if x = 0 then 0
      else case scaled 2200 \<bar>x\<bar> 0 of
             (y, e) \<Rightarrow> sgn x * real_of_int (roundToEven y) * 2 powi e)"

definition dmul :: "real \<Rightarrow> real \<Rightarrow> real" where
  "dmul a b = fl (a * b)"

definition ddiv :: "real \<Rightarrow> real \<Rightarrow> real" where
  "ddiv a b = fl (a / b)"

text \<open>
  \<open>keywordMatchPercentage\<close> in double arithmetic. \<^verbatim>\<open>Math.round\<close> is exact on a double.
\<close>

definition keywordMatchPercentageD :: "naturalLib \<Rightarrow> string option \<Rightarrow> string list option \<Rightarrow> int" where
  "keywordMatchPercentageD L resumeText jobKeywords =
     (case jobKeywords of
        None \<Rightarrow> 0
      | Some ks \<Rightarrow>
          if length ks = 0 then 0
          else
            let matches = matchCount (cleanAndTokenize L resumeText) ks
            in \<lfloor>dmul (ddiv (real matches) (real (length ks))) 100 + 1 / 2\<rfloor>)"

section \<open>Double precision: the whole range\<close>

text \<open>
  A double is a finite number, one of the two infinities, or NaN. The two zeros are
  not told apart: they are equal under \<^verbatim>\<open>===\<close>, and the source divides by no zero (the
  denominator of \<open>cosineSimilarity\<close> is tested, and \<^verbatim>\<open>df[term] + 1\<close> is at least 1).
\<close>

datatype double = Finite real | PosInf | NegInf | NotANumber

fun isFinite :: "double \<Rightarrow> bool" where
  "isFinite (Finite a) = True"
| "isFinite PosInf = False"
| "isFinite NegInf = False"
| "isFinite NotANumber = False"

text \<open>
  The double that an exact result is rounded to. Below \<open>2^-1022\<close> the doubles are the
  multiples of \<open>2^-1074\<close> (gradual underflow, down to zero). The largest double is
  \<open>2^1024 - 2^971\<close>; a result of magnitude \<open>2^1024 - 2^970\<close> or more rounds to an
  infinity.
\<close>

definition rnd :: "real \<Rightarrow> double" where
  "rnd x =
     (if \<bar>x\<bar> < 1 / 2 ^ 1022 then Finite (real_of_int (roundToEven (x * 2 ^ 1074)) / 2 ^ 1074)
      else if 2 ^ 1024 - 2 ^ 970 \<le> \<bar>x\<bar> then (if 0 < x then PosInf else NegInf)
      else Finite (fl x))"

definition signedInf :: "real \<Rightarrow> double" where
  "signedInf s = (if s < 0 then NegInf else PosInf)"

fun signOf :: "double \<Rightarrow> real" where
  "signOf (Finite a) = sgn a"
| "signOf PosInf = 1"
| "signOf NegInf = - 1"
| "signOf NotANumber = 0"

text \<open>The operators \<^verbatim>\<open>+\<close>, \<^verbatim>\<open>*\<close> and \<^verbatim>\<open>/\<close> on numbers.\<close>

fun addD :: "double \<Rightarrow> double \<Rightarrow> double" where
  "addD (Finite a) (Finite b) = rnd (a + b)"
| "addD NotANumber y = NotANumber"
| "addD x NotANumber = NotANumber"
| "addD PosInf NegInf = NotANumber"
| "addD NegInf PosInf = NotANumber"
| "addD PosInf y = PosInf"
| "addD x PosInf = PosInf"
| "addD NegInf y = NegInf"
| "addD x NegInf = NegInf"

text \<open>An infinity times zero is NaN.\<close>

fun mulD :: "double \<Rightarrow> double \<Rightarrow> double" where
  "mulD (Finite a) (Finite b) = rnd (a * b)"
| "mulD NotANumber y = NotANumber"
| "mulD x NotANumber = NotANumber"
| "mulD x y = (if signOf x * signOf y = 0 then NotANumber else signedInf (signOf x * signOf y))"

fun divD :: "double \<Rightarrow> double \<Rightarrow> double" where
  "divD (Finite a) (Finite b) =
     (if b = 0 then (if a = 0 then NotANumber else signedInf a) else rnd (a / b))"
| "divD NotANumber y = NotANumber"
| "divD x NotANumber = NotANumber"
| "divD (Finite a) y = Finite 0"
| "divD x (Finite b) = signedInf (signOf x * (if b < 0 then - 1 else 1))"
| "divD x y = NotANumber"

text \<open>\<^verbatim>\<open>Math.sqrt\<close>, which is correctly rounded.\<close>

fun sqrtD :: "double \<Rightarrow> double" where
  "sqrtD (Finite a) = (if a < 0 then NotANumber else rnd (sqrt a))"
| "sqrtD PosInf = PosInf"
| "sqrtD NegInf = NotANumber"
| "sqrtD NotANumber = NotANumber"

text \<open>
  \<^verbatim>\<open>Math.log\<close>. The language leaves its precision to the implementation and fixes
  \<^verbatim>\<open>Math.log(1) = 0\<close>; the model takes the double nearest to the logarithm. With two
  documents and tokens that name no property of \<^verbatim>\<open>Object.prototype\<close> the source passes
  1 and 1.5 only, and the double nearest to \<open>ln 1.5\<close> is \<open>0.4054651081081644\<close>.
\<close>

fun logD :: "double \<Rightarrow> double" where
  "logD (Finite a) = (if a < 0 then NotANumber else if a = 0 then NegInf else rnd (ln a))"
| "logD PosInf = PosInf"
| "logD NegInf = NotANumber"
| "logD NotANumber = NotANumber"

text \<open>\<^verbatim>\<open>Math.round\<close>, which is exact: the nearest integer, a tie going up.\<close>

fun roundD :: "double \<Rightarrow> double" where
  "roundD (Finite x) = Finite (of_int \<lfloor>x + 1 / 2\<rfloor>)"
| "roundD PosInf = PosInf"
| "roundD NegInf = NegInf"
| "roundD NotANumber = NotANumber"

text \<open>
  A count kept in an object (an integer below \<open>2^53\<close>, since an array has fewer than
  \<open>2^32\<close> elements; on such integers \<^verbatim>\<open>+\<close> is exact) as a double.
\<close>

fun toDouble :: "jsnum \<Rightarrow> double" where
  "toDouble (Num x) = rnd x"
| "toDouble NaN = NotANumber"

text \<open>
  \<open>dotProduct\<close>, \<open>magnitude\<close> and \<open>cosineSimilarity\<close> on vectors of doubles. A read
  beyond the end of an array is \<^verbatim>\<open>undefined\<close>, which \<^verbatim>\<open>*\<close> converts to NaN.
\<close>

definition elemAtD :: "double list \<Rightarrow> nat \<Rightarrow> double" where
  "elemAtD b i = (if i < length b then b ! i else NotANumber)"

definition dotProductD :: "double list \<Rightarrow> double list \<Rightarrow> double" where
  "dotProductD a b =
     foldl (\<lambda>s i. addD s (mulD (a ! i) (elemAtD b i))) (Finite 0) [0 ..< length a]"

text \<open>The loop of \<open>magnitude\<close>, and \<open>magnitude\<close>.\<close>

definition sumSquaresD :: "double list \<Rightarrow> double" where
  "sumSquaresD a = foldl (\<lambda>s x. addD s (mulD x x)) (Finite 0) a"

definition magnitudeD :: "double list \<Rightarrow> double" where
  "magnitudeD a = sqrtD (sumSquaresD a)"

definition cosineSimilarityD :: "double list \<Rightarrow> double list \<Rightarrow> double" where
  "cosineSimilarityD vecA vecB =
     (let denom = mulD (magnitudeD vecA) (magnitudeD vecB)
      in if denom = Finite 0 then Finite 0
         else divD (dotProductD vecA vecB) denom)"

text \<open>
  The object \<^verbatim>\<open>idf\<close> holds doubles. A read yields undefined, a double, or an inherited
  value that is no number.
\<close>

datatype dval = DUndefined | DVal double | DJunk

type_synonym dobject = "(string \<times> double) list"

definition getPropD :: "dobject \<Rightarrow> string \<Rightarrow> dval" where
  "getPropD ob k =
     (case map_of ob k of
        Some v \<Rightarrow> DVal v
      | None \<Rightarrow> if k \<in> set objectPrototypeKeys then DJunk else DUndefined)"

definition setPropD :: "dobject \<Rightarrow> string \<Rightarrow> double \<Rightarrow> dobject" where
  "setPropD ob k v = (if k = ''__proto__'' then ob else AList.update k v ob)"

text \<open>The idiom \<^verbatim>\<open>v || 0\<close> followed by the conversion to a number.\<close>

fun orZeroD :: "dval \<Rightarrow> double" where
  "orZeroD DUndefined = Finite 0"
| "orZeroD (DVal v) = (if v = Finite 0 \<or> v = NotANumber then Finite 0 else v)"
| "orZeroD DJunk = NotANumber"

text \<open>The expression \<^verbatim>\<open>Math.log((N + 1) / (df[term] + 1)) + 1\<close>.\<close>

definition idfValueD :: "nat \<Rightarrow> jsval \<Rightarrow> double" where
  "idfValueD N d =
     addD (logD (divD (toDouble (Num (real N + 1))) (toDouble (toNumber (jplus d 1)))))
          (Finite 1)"

definition computeIdfD :: "string list list \<Rightarrow> dobject" where
  "computeIdfD allDocsTokens =
     (let df = docFreq allDocsTokens;
          N = length allDocsTokens
      in fold (\<lambda>term idf. setPropD idf term (idfValueD N (getProp df term)))
           (ownKeys df) [])"

definition tfidfVectorD :: "string list \<Rightarrow> dobject \<Rightarrow> string list \<Rightarrow> double list" where
  "tfidfVectorD docTokens idf vocab =
     (let tf = buildTermFreq docTokens
      in map (\<lambda>term. mulD (toDouble (toNumber (orZero (getProp tf term))))
                           (orZeroD (getPropD idf term))) vocab)"

definition semanticSimilarityD :: "naturalLib \<Rightarrow> string option \<Rightarrow> string option \<Rightarrow> double" where
  "semanticSimilarityD L resumeText jobDescription =
     (let resumeTokens = cleanAndTokenize L resumeText;
          jobTokens = cleanAndTokenize L jobDescription
      in if length resumeTokens = 0 \<or> length jobTokens = 0 then Finite 0
         else
           let allDocs = [resumeTokens, jobTokens];
               idf = computeIdfD allDocs;
               vocab = setOf (resumeTokens @ jobTokens);
               vecA = tfidfVectorD resumeTokens idf vocab;
               vecB = tfidfVectorD jobTokens idf vocab;
               sim = cosineSimilarityD vecA vecB
           in roundD (mulD sim (Finite 100)))"

text \<open>A call of \<open>cosineSimilarity\<close> on doubles always returns.\<close>

definition cosineSimilarityCallD :: "double list \<Rightarrow> double list \<Rightarrow> double completion" where
  "cosineSimilarityCallD vecA vecB = Returns (cosineSimilarityD vecA vecB)"

section \<open>Sets, property reads and counting\<close>

lemma setOf_foldl_set:
  "set (foldl (\<lambda>acc x. if x \<in> set acc then acc else acc @ [x]) acc xs) = set acc \<union> set xs"
  by (induction xs arbitrary: acc) auto

lemma setOf_foldl_distinct:
  "distinct acc \<Longrightarrow> distinct (foldl (\<lambda>acc x. if x \<in> set acc then acc else acc @ [x]) acc xs)"
  by (induction xs arbitrary: acc) auto

lemma set_setOf [simp]: "set (setOf xs) = set xs"
  by (simp add: setOf_def setOf_foldl_set)

lemma distinct_setOf [simp]: "distinct (setOf xs)"
  by (simp add: setOf_def setOf_foldl_distinct)

lemma setOf_Nil [simp]: "setOf [] = []"
  by (simp add: setOf_def)

lemma setOf_eq_Nil [simp]: "setOf xs = [] \<longleftrightarrow> xs = []"
  by (metis set_setOf set_empty)

lemma mset_setOf_cong: "set xs = set ys \<Longrightarrow> mset (setOf xs) = mset (setOf ys)"
  by (simp add: set_eq_iff_mset_eq_distinct [symmetric])

text \<open>Property reads and writes.\<close>

lemma getProp_Nil: "getProp [] k = (if k \<in> set objectPrototypeKeys then Junk else Undefined)"
  by (simp add: getProp_def)

lemma getProp_setProp_same:
  "k \<noteq> ''__proto__'' \<Longrightarrow> getProp (setProp ob k v) k = v"
  by (simp add: getProp_def setProp_def update_conv')

lemma getProp_setProp_other:
  "k' \<noteq> k \<Longrightarrow> getProp (setProp ob k v) k' = getProp ob k'"
  by (simp add: getProp_def setProp_def update_conv')

lemma getProp_setProp_proto:
  "getProp (setProp ob ''__proto__'' v) k' = getProp ob k'"
  by (simp add: setProp_def)

lemma proto_in_keys: "''__proto__'' \<in> set objectPrototypeKeys"
  by (simp add: objectPrototypeKeys_def)

lemma keys_setProp:
  "map fst (setProp ob k v) =
     (if k = ''__proto__'' \<or> k \<in> set (map fst ob) then map fst ob else map fst ob @ [k])"
  by (simp add: setProp_def update_keys)

text \<open>An inherited name reads as a non-number, whatever has been counted.\<close>

lemma protoJunk_iff: "protoJunk ob \<longleftrightarrow> (\<forall>k \<in> set objectPrototypeKeys. getProp ob k = Junk)"
  by (simp add: protoJunk_def list_all_iff)

lemma protoJunk_Nil: "protoJunk []"
  by (simp add: protoJunk_iff getProp_Nil)

lemma protoJunk_bump: "protoJunk ob \<Longrightarrow> protoJunk (bump w t ob)"
  unfolding protoJunk_iff bump_def
proof
  fix k assume inv: "\<forall>k\<in>set objectPrototypeKeys. getProp ob k = Junk"
    and k: "k \<in> set objectPrototypeKeys"
  show "getProp (setProp ob t (jplus (orZero (getProp ob t)) w)) k = Junk"
  proof (cases "t = k")
    case True
    with inv k have "getProp ob t = Junk" by simp
    then show ?thesis using True inv k
      by (cases "k = ''__proto__''") (simp_all add: getProp_setProp_same getProp_setProp_proto orZero_def)
  next
    case False
    then show ?thesis using inv k by (simp add: getProp_setProp_other)
  qed
qed

lemma protoJunk_fold_bump: "protoJunk ob \<Longrightarrow> protoJunk (fold (\<lambda>t. bump (w t) t) ts ob)"
  by (induction ts arbitrary: ob) (simp_all add: protoJunk_bump)

text \<open>Any other name holds the sum of the weights counted for it.\<close>

lemma counted_bump_same:
  assumes "t \<notin> set objectPrototypeKeys" "counted (getProp ob t) c" "0 \<le> c" "0 < w"
  shows "counted (getProp (bump w t ob) t) (c + w)"
proof -
  from assms(1) have t: "t \<noteq> ''__proto__''" using proto_in_keys by auto
  show ?thesis
  proof (cases "c = 0")
    case True
    with assms have "getProp ob t = Undefined" by (simp add: counted_def)
    with t True assms(4) show ?thesis
      by (simp add: counted_def bump_def getProp_setProp_same orZero_def)
  next
    case False
    with assms have "getProp ob t = Val (Num c)" by (simp add: counted_def)
    with t False assms(3,4) show ?thesis
      by (simp add: counted_def bump_def getProp_setProp_same orZero_def)
  qed
qed

lemma getProp_bump_other: "k \<noteq> t \<Longrightarrow> getProp (bump w t ob) k = getProp ob k"
  by (simp add: bump_def getProp_setProp_other)

lemma counted_fold_bump:
  assumes "k \<notin> set objectPrototypeKeys" "0 < w k"
  shows "counted (getProp ob k) c \<Longrightarrow> 0 \<le> c \<Longrightarrow>
    counted (getProp (fold (\<lambda>t. bump (w t) t) ts ob) k) (c + w k * real (count_list ts k))"
proof (induction ts arbitrary: ob c)
  case Nil
  then show ?case by simp
next
  case (Cons t ts)
  show ?case
  proof (cases "t = k")
    case True
    have "counted (getProp (bump (w k) k ob) k) (c + w k)"
      using counted_bump_same [of k ob c "w k"] assms Cons.prems by simp
    from Cons.IH [OF this] assms(2) Cons.prems(2) True show ?thesis
      by (simp add: algebra_simps)
  next
    case False
    with Cons.prems have "counted (getProp (bump (w t) t ob) k) c"
      by (simp add: getProp_bump_other)
    from Cons.IH [OF this Cons.prems(2)] False show ?thesis by simp
  qed
qed

lemma counted_Nil: "k \<notin> set objectPrototypeKeys \<Longrightarrow> counted (getProp [] k) 0"
  by (simp add: counted_def getProp_Nil)

lemma getProp_fold_bump:
  assumes "k \<notin> set objectPrototypeKeys" "0 < w k"
  shows "getProp (fold (\<lambda>t. bump (w t) t) ts []) k =
     (if k \<in> set ts then Val (Num (w k * real (count_list ts k))) else Undefined)"
proof -
  have "counted (getProp (fold (\<lambda>t. bump (w t) t) ts []) k) (0 + w k * real (count_list ts k))"
    using counted_fold_bump [of k w "[]" 0 ts] assms counted_Nil [of k] by simp
  then show ?thesis using assms(2)
    by (auto simp: counted_def count_list_0_iff)
qed

lemma keys_bump:
  "map fst (bump w t ob) =
     (if t = ''__proto__'' \<or> t \<in> set (map fst ob) then map fst ob else map fst ob @ [t])"
  by (simp add: bump_def keys_setProp)

lemma keys_fold_bump:
  "map fst (fold (\<lambda>t. bump (w t) t) ts ob) =
     foldl (\<lambda>acc x. if x \<in> set acc then acc else acc @ [x]) (map fst ob)
       (filter (\<lambda>t. t \<noteq> ''__proto__'') ts)"
proof (induction ts arbitrary: ob)
  case Nil
  then show ?case by simp
next
  case (Cons t ts)
  show ?case by (simp add: Cons.IH keys_bump del: set_map)
qed

lemma keys_fold_bump_Nil:
  "map fst (fold (\<lambda>t. bump (w t) t) ts []) = setOf (filter (\<lambda>t. t \<noteq> ''__proto__'') ts)"
  by (simp add: keys_fold_bump setOf_def)

section \<open>The tokenizer\<close>

lemma replaceRunsFrom_emptyClass: "replaceRunsFrom emptyClass b s = s"
  by (induction s arbitrary: b) (simp_all add: emptyClass_def)

lemma replaceRuns_emptyClass [simp]: "replaceRuns emptyClass s = s"
  by (simp add: replaceRuns_def replaceRunsFrom_emptyClass)

lemma cleanAndTokenize_Some:
  "cleanAndTokenize L (Some s) =
     (if s = [] then []
      else filter (\<lambda>t. 2 < length t \<and> t \<notin> set (stopWords L))
             (tokenize L (toLowerCase (map blankOther s))))"
  by (simp add: cleanAndTokenize_def)

lemma space_kept: "blankOther CHR '' '' = CHR '' ''"
  by (simp add: blankOther_def)

lemma lower_space: "lowerChar CHR '' '' = CHR '' ''"
  by (simp add: lowerChar_def upperLetters_def lowerLetters_def)

lemma blank_whitespace: "isWhitespace c \<Longrightarrow> lowerChar (blankOther c) = CHR '' ''"
  by (auto simp: isWhitespace_def whitespaceChars_def blankOther_def keptChars_def
      lowerLetters_def upperLetters_def digitChars_def lower_space)

lemma space_whitespace: "isWhitespace CHR '' ''"
  by (simp add: isWhitespace_def whitespaceChars_def)

lemma split_collapse:
  "(inRun \<longrightarrow> cur = []) \<Longrightarrow>
   splitFrom isWhitespace cur (map (\<lambda>c. lowerChar (blankOther c)) (replaceRunsFrom isWhitespace inRun s))
   = splitFrom isWhitespace cur (map (\<lambda>c. lowerChar (blankOther c)) s)"
proof (induction s arbitrary: cur inRun)
  case Nil
  then show ?case by simp
next
  case (Cons c cs)
  show ?case
  proof (cases "isWhitespace c")
    case True
    then show ?thesis
      using Cons.IH [of True "[]"] Cons.prems
      by (simp add: blank_whitespace space_kept lower_space space_whitespace)
  next
    case False
    then show ?thesis
      using Cons.IH [of False] by simp
  qed
qed

lemma cleanAndTokenize_whitespace:
  assumes "tokenize L = splitWhitespace"
  shows "cleanAndTokenize L text = tokenizeBlanking (stopWords L) text"
proof (cases "text")
  case None
  then show ?thesis by (simp add: cleanAndTokenize_def tokenizeBlanking_def)
next
  case (Some s)
  have "splitWhitespace (toLowerCase (map blankOther (replaceRuns isWhitespace s)))
      = splitWhitespace (toLowerCase (map blankOther s))"
    using split_collapse [of False "[]" s]
    by (simp add: splitWhitespace_def toLowerCase_def replaceRuns_def comp_def)
  with Some assms show ?thesis
    by (auto simp: cleanAndTokenize_Some tokenizeBlanking_def splitWhitespace_def
        toLowerCase_def replaceRuns_def)
qed

section \<open>Tokenization of the example texts\<close>

lemma tokens_resume_example:
  "cleanAndTokenize exampleLib
     (Some ''I am a concept artist specializing in stylized character illustration and digital painting'')
   = [''concept'', ''artist'', ''specializing'', ''stylized'', ''character'',
      ''illustration'', ''digital'', ''painting'']"
  by code_simp

lemma tokenizeBlanking_example:
  "tokenizeBlanking exampleStopWords (Some ''Art,design  and C++'') = [''art'', ''design'', ''c++'']"
  by code_simp

lemma tokens_art_design: "cleanAndTokenize exampleLib (Some ''art,design'') = [''art'', ''design'']"
  by code_simp

lemma tokenizeSpec_art_design:
  "tokenizeSpec (stopWords exampleLib) (Some ''art,design'') = [''artdesign'']"
  by code_simp

lemma tokens_concept_artist:
  "cleanAndTokenize exampleLib (Some ''concept artist'') = [''concept'', ''artist'']"
  by code_simp

lemma tokens_constructor_game:
  "cleanAndTokenize exampleLib (Some ''artist for a constructor game'')
     = [''artist'', ''constructor'', ''game'']"
  by code_simp

lemma tokens_artist: "cleanAndTokenize exampleLib (Some ''artist'') = [''artist'']"
  by code_simp

section \<open>Vectors of numbers\<close>

lemma sumsq_foldl_Num:
  "foldl (\<lambda>s x. jadd s (jmul x x)) (Num c) (map Num u) = Num (c + sum_list (map (\<lambda>x. x * x) u))"
  by (induction u arbitrary: c) (simp_all add: algebra_simps)

lemma sumsq_nonneg: "0 \<le> sum_list (map (\<lambda>x. x * x) (u :: real list))"
  by (induction u) simp_all

lemma magnitude_Num:
  "magnitude (map Num u) = Num (sqrt (sum_list (map (\<lambda>x. x * x) u)))"
  using sumsq_nonneg [of u] by (simp add: magnitude_def sumsq_foldl_Num)

lemma semanticSimilarity_empty:
  "cleanAndTokenize L a = [] \<or> cleanAndTokenize L b = [] \<Longrightarrow> semanticSimilarity L a b = Some 0"
  by (auto simp: semanticSimilarity_def Let_def)

lemma cosineSimilarity_zero_magnitude:
  "magnitude (map Num u) = Num 0 \<or> magnitude (map Num v) = Num 0 \<Longrightarrow>
   cosineSimilarity (map Num u) (map Num v) = Num 0"
  by (auto simp: cosineSimilarity_def magnitude_Num Let_def)

lemma foldl_jadd_NaN: "foldl (\<lambda>s i. jadd s (g i)) NaN xs = NaN"
  by (induction xs) simp_all

lemma dot_foldl_Num:
  assumes "n \<le> length u" "n \<le> length v"
  shows "foldl (\<lambda>s i. jadd s (jmul (map Num u ! i) (toNumber (elemAt (map Num v) i)))) (Num 0) [0 ..< n]
     = Num (\<Sum>i<n. u ! i * v ! i)"
  using assms by (induction n) (simp_all add: elemAt_def)

lemma dotProduct_Num:
  "length u \<le> length v \<Longrightarrow> dotProduct (map Num u) (map Num v) = Num (\<Sum>i<length u. u ! i * v ! i)"
  using dot_foldl_Num [of "length u" u v] by (simp add: dotProduct_def)

lemma dotProduct_short:
  assumes "length v < length u"
  shows "dotProduct (map Num u) (map Num v) = NaN"
proof -
  have split: "[0 ..< length u] = [0 ..< length v] @ length v # [Suc (length v) ..< length u]"
    using assms by (metis upt_add_eq_append upt_conv_Cons le_add_diff_inverse less_imp_le_nat zero_le)
  have "foldl (\<lambda>s i. jadd s (jmul (map Num u ! i) (toNumber (elemAt (map Num v) i)))) (Num 0) [0 ..< length v]
     = Num (\<Sum>i<length v. u ! i * v ! i)"
    using assms by (intro dot_foldl_Num) simp_all
  then show ?thesis
    using assms by (simp add: dotProduct_def split elemAt_def foldl_jadd_NaN)
qed

lemma cosineSimilarity_Num:
  "cosineSimilarity (map Num u) (map Num v) =
     (if norm2 u * norm2 v = 0 then Num 0
      else jdiv (dotProduct (map Num u) (map Num v)) (Num (norm2 u * norm2 v)))"
  by (simp add: cosineSimilarity_def magnitude_Num norm2_def Let_def)

lemma norm2_3_4: "norm2 [3, 4] = 5"
proof -
  have "sqrt 25 = (5 :: real)" by (rule real_sqrt_unique) simp_all
  then show ?thesis by (simp add: norm2_def)
qed

lemma norm2_1: "norm2 [1] = 1"
  by (simp add: norm2_def)

section \<open>First occurrences, term frequencies and inverse document frequencies\<close>

lemma setOf_snoc: "setOf (xs @ [x]) = (if x \<in> set xs then setOf xs else setOf xs @ [x])"
  by (simp add: setOf_def setOf_foldl_set)

lemma firstSeen_snoc:
  "firstSeen (xs @ [x]) = (if x \<in> set xs then firstSeen xs else firstSeen xs @ [x])"
proof -
  let ?P = "\<lambda>i. (xs @ [x]) ! i \<notin> set (take i (xs @ [x]))"
  have u: "[0 ..< length (xs @ [x])] = [0 ..< length xs] @ [length xs]"
    by simp
  have a: "filter ?P [0 ..< length xs] = filter (\<lambda>i. xs ! i \<notin> set (take i xs)) [0 ..< length xs]"
    by (rule filter_cong) (auto simp: nth_append)
  have b: "map (\<lambda>i. (xs @ [x]) ! i) (filter (\<lambda>i. xs ! i \<notin> set (take i xs)) [0 ..< length xs])
         = firstSeen xs"
    unfolding firstSeen_def by (rule map_cong) (auto simp: nth_append)
  have c: "map (\<lambda>i. (xs @ [x]) ! i) (filter ?P [length xs]) = (if x \<in> set xs then [] else [x])"
    by simp
  have "firstSeen (xs @ [x]) =
      map (\<lambda>i. (xs @ [x]) ! i) (filter ?P [0 ..< length xs])
      @ map (\<lambda>i. (xs @ [x]) ! i) (filter ?P [length xs])"
    unfolding firstSeen_def u by (simp only: filter_append map_append)
  also have "\<dots> = firstSeen xs @ (if x \<in> set xs then [] else [x])"
    by (simp only: a b c)
  finally show ?thesis by simp
qed

lemma setOf_firstSeen: "setOf xs = firstSeen xs"
proof (induction xs rule: rev_induct)
  case Nil
  show ?case by (simp add: firstSeen_def)
next
  case (snoc x xs)
  then show ?case by (simp add: setOf_snoc firstSeen_snoc)
qed

text \<open>Term frequencies.\<close>

lemma buildTermFreq_plain:
  "\<not> inheritedName k \<Longrightarrow>
   getProp (buildTermFreq D) k = (if k \<in> set D then Val (Num (real (count_list D k))) else Undefined)"
  using getProp_fold_bump [of k "\<lambda>_. 1" D] by (simp add: buildTermFreq_def inheritedName_def)

lemma buildTermFreq_inherited:
  "inheritedName k \<Longrightarrow> getProp (buildTermFreq D) k = Junk"
  using protoJunk_fold_bump [OF protoJunk_Nil, of "\<lambda>_. 1" D]
  by (simp add: buildTermFreq_def inheritedName_def protoJunk_iff)

text \<open>Document frequencies of a pair of documents.\<close>

lemma docFreq_pair: "docFreq [A, B] = fold (\<lambda>t. bump 1 t) (setOf A @ setOf B) []"
  by (simp add: docFreq_def)

lemma count_list_distinct: "distinct xs \<Longrightarrow> count_list xs k = (if k \<in> set xs then 1 else 0)"
  by (induction xs) auto

lemma count_pair: "count_list (setOf A @ setOf B) k = docCount A B k"
  by (simp add: docCount_def count_list_distinct)

lemma docFreq_plain:
  assumes "\<not> inheritedName k"
  shows "getProp (docFreq [A, B]) k =
     (if k \<in> set A \<union> set B then Val (Num (real (docCount A B k))) else Undefined)"
proof -
  have "getProp (fold (\<lambda>t. bump ((\<lambda>_. 1) t) t) (setOf A @ setOf B) []) k =
     (if k \<in> set (setOf A @ setOf B)
      then Val (Num ((\<lambda>_. 1) k * real (count_list (setOf A @ setOf B) k))) else Undefined)"
    using assms by (intro getProp_fold_bump) (simp_all add: inheritedName_def)
  then show ?thesis
    unfolding docFreq_pair count_pair by simp
qed

lemma docFreq_inherited: "inheritedName k \<Longrightarrow> getProp (docFreq [A, B]) k = Junk"
  using protoJunk_fold_bump [OF protoJunk_Nil, of "\<lambda>_. 1" "setOf A @ setOf B"]
  by (simp add: docFreq_pair inheritedName_def protoJunk_iff del: fold_append)

lemma keys_docFreq:
  "set (map fst (docFreq [A, B])) = (set A \<union> set B) - {''__proto__''}"
  by (auto simp: docFreq_pair keys_fold_bump_Nil simp del: set_map fold_append)

lemma set_propertyOrder: "set (propertyOrder ks) = set ks"
  by (auto simp: propertyOrder_def)

lemma set_ownKeys: "set (ownKeys ob) = set (map fst ob)"
  by (simp only: ownKeys_def set_propertyOrder)

text \<open>The object idf.\<close>

lemma getProp_setProp:
  "getProp (setProp ob t v) k = (if k = t \<and> t \<noteq> ''__proto__'' then v else getProp ob k)"
  by (simp add: getProp_def setProp_def update_conv')

lemma getProp_fold_setProp:
  "getProp (fold (\<lambda>term idf. setProp idf term (Val (f term))) ks ob) k =
     (if k \<in> set ks \<and> k \<noteq> ''__proto__'' then Val (f k) else getProp ob k)"
proof (induction ks arbitrary: ob)
  case Nil
  show ?case by simp
next
  case (Cons t ks)
  show ?case by (simp add: Cons.IH getProp_setProp)
qed

lemma getProp_computeIdf:
  "getProp (computeIdf [A, B]) k =
     (if k \<in> set A \<union> set B \<and> k \<noteq> ''__proto__''
      then Val (idfValue (Suc (Suc 0)) (getProp (docFreq [A, B]) k))
      else if inheritedName k then Junk else Undefined)"
  by (simp add: computeIdf_def Let_def getProp_fold_setProp set_ownKeys keys_docFreq getProp_Nil
      inheritedName_def del: set_map)

lemma idfValue_Num:
  "0 \<le> c \<Longrightarrow> idfValue (Suc (Suc 0)) (Val (Num c)) = Num (ln (3 / (c + 1)) + 1)"
  by (simp add: idfValue_def)

lemma idfValue_Junk: "idfValue N Junk = NaN"
  by (simp add: idfValue_def)

lemma computeIdf_plain:
  assumes "\<not> inheritedName k" "k \<in> set A \<union> set B"
  shows "getProp (computeIdf [A, B]) k = Val (Num (idfOf A B k))"
proof -
  from assms(1) have "k \<noteq> ''__proto__''" using proto_in_keys by (auto simp: inheritedName_def)
  with assms show ?thesis
    by (simp add: getProp_computeIdf docFreq_plain idfValue_Num idfOf_def)
qed

lemma docCount_cases: "docCount A B k = 0 \<or> docCount A B k = 1 \<or> docCount A B k = 2"
  by (simp add: docCount_def)

lemma ln_three_halves_pos: "0 < ln (3 / 2 :: real)"
  by (simp add: ln_gt_zero_iff)

lemma idfOf_pos: "0 < idfOf A B k"
proof -
  have "real (docCount A B k) + 1 \<le> 3"
    by (simp add: docCount_def)
  then have "1 \<le> (2 + 1) / (real (docCount A B k) + 1)"
    by (simp add: field_simps)
  then have "0 \<le> ln ((2 + 1) / (real (docCount A B k) + 1))"
    by (rule ln_ge_zero)
  then show ?thesis unfolding idfOf_def by linarith
qed

section \<open>Vectors with NaN, TF-IDF entries and the Cauchy-Schwarz inequality\<close>

text \<open>NaN in a vector.\<close>

lemma jadd_NaN_right [simp]: "jadd s NaN = NaN"
  by (cases s) simp_all

lemma jmul_NaN_right [simp]: "jmul s NaN = NaN"
  by (cases s) simp_all

lemma jdiv_NaN_right [simp]: "jdiv s NaN = NaN"
  by (cases s) simp_all

lemma sumsq_foldl_from_NaN: "foldl (\<lambda>s x. jadd s (jmul x x)) NaN v = NaN"
  by (induction v) simp_all

lemma sumsq_foldl_NaN: "NaN \<in> set v \<Longrightarrow> foldl (\<lambda>s x. jadd s (jmul x x)) s v = NaN"
  by (induction v arbitrary: s) (auto simp: sumsq_foldl_from_NaN)

lemma magnitude_NaN: "NaN \<in> set v \<Longrightarrow> magnitude v = NaN"
  by (simp add: magnitude_def sumsq_foldl_NaN)

lemma cosineSimilarity_NaN: "NaN \<in> set a \<Longrightarrow> cosineSimilarity a b = NaN"
  by (simp add: cosineSimilarity_def magnitude_NaN Let_def)

text \<open>The entries of a TF-IDF vector.\<close>

lemma tfidf_entry_plain:
  assumes "\<not> inheritedName t" "t \<in> set A \<union> set B"
  shows "jmul (toNumber (orZero (getProp (buildTermFreq D) t)))
              (toNumber (orZero (getProp (computeIdf [A, B]) t))) = Num (tfidfOf D A B t)"
proof -
  have idf: "orZero (getProp (computeIdf [A, B]) t) = Val (Num (idfOf A B t))"
    using computeIdf_plain [OF assms] idfOf_pos [of A B t] by (simp add: orZero_def)
  have tf: "toNumber (orZero (getProp (buildTermFreq D) t)) = Num (real (count_list D t))"
    using buildTermFreq_plain [OF assms(1), of D]
    by (auto simp: orZero_def count_list_0_iff)
  show ?thesis by (simp add: idf tf tfidfOf_def)
qed

lemma tfidf_entry_inherited:
  "inheritedName t \<Longrightarrow>
   jmul (toNumber (orZero (getProp (buildTermFreq D) t))) x = NaN"
  by (simp add: buildTermFreq_inherited orZero_def)

lemma plainTokens_iff: "plainTokens ts \<longleftrightarrow> (\<forall>t \<in> set ts. \<not> inheritedName t)"
  by (simp add: plainTokens_def list_all_iff)

lemma tfidfVector_plain:
  assumes "plainTokens V" "set V \<subseteq> set A \<union> set B"
  shows "tfidfVector D (computeIdf [A, B]) V = map Num (map (tfidfOf D A B) V)"
  using assms
  by (auto simp: tfidfVector_def Let_def plainTokens_iff intro!: tfidf_entry_plain)

lemma tfidfVector_inherited:
  assumes "\<not> plainTokens V"
  shows "NaN \<in> set (tfidfVector D idf V)"
proof -
  from assms obtain t where t: "t \<in> set V" "inheritedName t"
    by (auto simp: plainTokens_iff)
  then show ?thesis
    by (force simp: tfidfVector_def Let_def tfidf_entry_inherited)
qed

text \<open>The Cauchy-Schwarz inequality for the sums of a list.\<close>

lemma cauchy_schwarz_two:
  "p * q + a * b \<le> sqrt (p * p + a * a) * sqrt (q * q + b * (b :: real))"
proof -
  have "(p * p + a * a) * (q * q + b * b) - (p * q + a * b)\<^sup>2 = (p * b - a * q)\<^sup>2"
    by (simp add: power2_eq_square algebra_simps)
  then have "(p * q + a * b)\<^sup>2 \<le> (p * p + a * a) * (q * q + b * b)"
    by (metis diff_ge_0_iff_ge zero_le_power2)
  then have "sqrt ((p * q + a * b)\<^sup>2) \<le> sqrt ((p * p + a * a) * (q * q + b * b))"
    by (rule real_sqrt_le_mono)
  then have "\<bar>p * q + a * b\<bar> \<le> sqrt (p * p + a * a) * sqrt (q * q + b * b)"
    by (simp add: real_sqrt_mult)
  then show ?thesis by linarith
qed

lemma cauchy_schwarz_list:
  "(\<Sum>t\<leftarrow>xs. f t * g t) \<le> sqrt (\<Sum>t\<leftarrow>xs. f t * f t) * sqrt (\<Sum>t\<leftarrow>xs. g t * (g t :: real))"
proof (induction xs)
  case Nil
  show ?case by simp
next
  case (Cons x xs)
  let ?P = "\<Sum>t\<leftarrow>xs. f t * f t" and ?Q = "\<Sum>t\<leftarrow>xs. g t * g t"
  have P: "0 \<le> ?P" and Q: "0 \<le> ?Q"
    by (induction xs) simp_all
  have "(\<Sum>t\<leftarrow>x # xs. f t * g t) \<le> sqrt ?P * sqrt ?Q + f x * g x"
    using Cons.IH by simp
  also have "\<dots> \<le> sqrt (sqrt ?P * sqrt ?P + f x * f x) * sqrt (sqrt ?Q * sqrt ?Q + g x * g x)"
    by (rule cauchy_schwarz_two)
  also have "\<dots> = sqrt (\<Sum>t\<leftarrow>x # xs. f t * f t) * sqrt (\<Sum>t\<leftarrow>x # xs. g t * g t)"
    using P Q by (simp add: add.commute)
  finally show ?case .
qed

lemma norm2_map: "norm2 (map f xs) = sqrt (\<Sum>t\<leftarrow>xs. f t * f t)"
  by (simp add: norm2_def comp_def)

lemma dot_index_sum:
  "(\<Sum>i<length xs. map f xs ! i * map g xs ! i) = (\<Sum>t\<leftarrow>xs. f t * (g t :: real))"
proof -
  have "(\<Sum>t\<leftarrow>xs. f t * g t) = (\<Sum>i = 0 ..< length xs. f (xs ! i) * g (xs ! i))"
    by (simp add: sum_list_sum_nth)
  then show ?thesis by (simp add: atLeast0LessThan)
qed

section \<open>The semantic similarity in closed form\<close>

lemma tfidfOf_nonneg: "0 \<le> tfidfOf D A B t"
  using idfOf_pos [of A B t] by (simp add: tfidfOf_def)

lemma tfidfOf_pos:
  assumes "t \<in> set D"
  shows "0 < tfidfOf D A B t"
proof -
  have "0 < count_list D t"
    using assms by (metis count_list_0_iff gr0I)
  then show ?thesis
    using idfOf_pos [of A B t] by (simp add: tfidfOf_def)
qed

lemma norm2_nonneg: "0 \<le> norm2 u"
  using sumsq_nonneg [of u] by (simp add: norm2_def)

lemma sum_list_pos_member:
  assumes "x \<in> set xs" "0 < h x" "\<And>t. 0 \<le> (h t :: real)"
  shows "0 < (\<Sum>t\<leftarrow>xs. h t)"
  using assms(1)
proof (induction xs)
  case Nil
  then show ?case by simp
next
  case (Cons y ys)
  have nn: "0 \<le> (\<Sum>t\<leftarrow>ys. h t)"
    by (rule sum_list_nonneg) (auto intro: assms(3))
  show ?case
  proof (cases "x = y")
    case True
    with nn assms(2) show ?thesis by simp
  next
    case False
    with Cons have "0 < (\<Sum>t\<leftarrow>ys. h t)" by simp
    with assms(3) [of y] show ?thesis by simp
  qed
qed

lemma norm2_tfidf_pos:
  assumes "D \<noteq> []" "set D \<subseteq> set V"
  shows "0 < norm2 (map (tfidfOf D A B) V)"
proof -
  from assms obtain t where t: "t \<in> set D" "t \<in> set V"
    by (cases D) auto
  have "0 < (\<Sum>t\<leftarrow>V. tfidfOf D A B t * tfidfOf D A B t)"
    by (rule sum_list_pos_member [OF t(2)]) (simp_all add: tfidfOf_pos t(1))
  then show ?thesis by (simp add: norm2_map)
qed

lemma cosineOf_nonneg: "0 \<le> cosineOf A B"
proof -
  have "0 \<le> (\<Sum>t\<leftarrow>setOf (A @ B). tfidfOf A A B t * tfidfOf B A B t)"
    by (rule sum_list_nonneg) (auto simp: tfidfOf_nonneg)
  then show ?thesis
    by (simp add: cosineOf_def Let_def norm2_nonneg)
qed

lemma cosineOf_le_one: "cosineOf A B \<le> 1"
proof -
  let ?V = "setOf (A @ B)"
  let ?d = "norm2 (map (tfidfOf A A B) ?V) * norm2 (map (tfidfOf B A B) ?V)"
  have le: "(\<Sum>t\<leftarrow>?V. tfidfOf A A B t * tfidfOf B A B t) \<le> ?d"
    unfolding norm2_map by (rule cauchy_schwarz_list)
  have nn: "0 \<le> ?d"
    by (simp add: norm2_nonneg)
  show ?thesis
  proof (cases "?d = 0")
    case True
    have "cosineOf A B = (\<Sum>t\<leftarrow>?V. tfidfOf A A B t * tfidfOf B A B t) / ?d"
      by (simp add: cosineOf_def Let_def)
    also have "\<dots> = 0"
      by (simp only: True div_by_0)
    finally show ?thesis by simp
  next
    case False
    with nn have "0 < ?d" by linarith
    then have "(\<Sum>t\<leftarrow>?V. tfidfOf A A B t * tfidfOf B A B t) / ?d \<le> 1"
      using le by (simp only: pos_divide_le_eq mult_1)
    then show ?thesis by (simp add: cosineOf_def Let_def)
  qed
qed

text \<open>The closed form of the semantic similarity.\<close>

lemma cosineSimilarity_tfidf:
  assumes "A \<noteq> []" "B \<noteq> []" "plainTokens (A @ B)"
  shows "cosineSimilarity (tfidfVector A (computeIdf [A, B]) (setOf (A @ B)))
           (tfidfVector B (computeIdf [A, B]) (setOf (A @ B))) = Num (cosineOf A B)"
proof -
  let ?V = "setOf (A @ B)"
  let ?a = "map (tfidfOf A A B) ?V" and ?b = "map (tfidfOf B A B) ?V"
  have pl: "plainTokens ?V"
    using assms(3) by (simp add: plainTokens_iff)
  have va: "tfidfVector A (computeIdf [A, B]) ?V = map Num ?a"
    by (rule tfidfVector_plain [OF pl]) simp
  have vb: "tfidfVector B (computeIdf [A, B]) ?V = map Num ?b"
    by (rule tfidfVector_plain [OF pl]) simp
  have na: "0 < norm2 ?a" by (rule norm2_tfidf_pos [OF assms(1)]) simp
  have nb: "0 < norm2 ?b" by (rule norm2_tfidf_pos [OF assms(2)]) simp
  have d: "norm2 ?a * norm2 ?b \<noteq> 0" using na nb by simp
  have dot: "dotProduct (map Num ?a) (map Num ?b) = Num (\<Sum>t\<leftarrow>?V. tfidfOf A A B t * tfidfOf B A B t)"
    using dotProduct_Num [of ?a ?b] dot_index_sum [of "tfidfOf A A B" ?V "tfidfOf B A B"]
    by simp
  have "cosineSimilarity (map Num ?a) (map Num ?b) =
      jdiv (dotProduct (map Num ?a) (map Num ?b)) (Num (norm2 ?a * norm2 ?b))"
    using d by (simp only: cosineSimilarity_Num if_False)
  also have "\<dots> = jdiv (Num (\<Sum>t\<leftarrow>?V. tfidfOf A A B t * tfidfOf B A B t)) (Num (norm2 ?a * norm2 ?b))"
    by (simp only: dot)
  also have "\<dots> = Num (cosineOf A B)"
    using d by (simp add: cosineOf_def Let_def)
  finally show ?thesis
    by (simp only: va vb)
qed

lemma semanticSimilarity_tokens:
  "semanticSimilarity L a b =
     (let A = cleanAndTokenize L a; B = cleanAndTokenize L b
      in if A = [] \<or> B = [] then Some 0
         else if plainTokens (A @ B) then Some \<lfloor>100 * cosineOf A B + 1 / 2\<rfloor>
         else None)"
proof -
  let ?A = "cleanAndTokenize L a" and ?B = "cleanAndTokenize L b"
  show ?thesis
  proof (cases "?A = [] \<or> ?B = []")
    case True
    then show ?thesis by (auto simp: semanticSimilarity_def Let_def)
  next
    case ne: False
    show ?thesis
    proof (cases "plainTokens (?A @ ?B)")
      case True
      with ne show ?thesis
        by (simp add: semanticSimilarity_def Let_def cosineSimilarity_tfidf mult.commute)
    next
      case False
      then have "\<not> plainTokens (setOf (?A @ ?B))"
        by (simp add: plainTokens_iff)
      then have "NaN \<in> set (tfidfVector ?A (computeIdf [?A, ?B]) (setOf (?A @ ?B)))"
        by (rule tfidfVector_inherited)
      then have "cosineSimilarity (tfidfVector ?A (computeIdf [?A, ?B]) (setOf (?A @ ?B)))
                   (tfidfVector ?B (computeIdf [?A, ?B]) (setOf (?A @ ?B))) = NaN"
        by (rule cosineSimilarity_NaN)
      with ne False show ?thesis
        by (simp add: semanticSimilarity_def Let_def)
    qed
  qed
qed

text \<open>Symmetry.\<close>

lemma docCount_commute: "docCount A B t = docCount B A t"
  by (simp add: docCount_def)

lemma tfidfOf_commute: "tfidfOf D A B t = tfidfOf D B A t"
  by (simp add: tfidfOf_def idfOf_def docCount_commute)

lemma sum_list_mset_cong:
  "mset xs = mset ys \<Longrightarrow> (\<Sum>t\<leftarrow>xs. h t) = (\<Sum>t\<leftarrow>ys. (h t :: real))"
  by (metis mset_map sum_mset_sum_list)

lemma cosineOf_commute: "cosineOf A B = cosineOf B A"
proof -
  have m: "mset (setOf (A @ B)) = mset (setOf (B @ A))"
    by (rule mset_setOf_cong) auto
  show ?thesis
    unfolding cosineOf_def Let_def norm2_map
    by (simp add: tfidfOf_commute [of _ B A] sum_list_mset_cong [OF m] mult.commute)
qed

lemma plainTokens_append_commute: "plainTokens (A @ B) = plainTokens (B @ A)"
  by (auto simp: plainTokens_iff)

lemma sumsq_pos:
  assumes "x \<in> set v" "x \<noteq> (0 :: real)"
  shows "0 < (\<Sum>x\<leftarrow>v. x * x)"
proof (rule sum_list_pos_member [OF assms(1)])
  show "0 < x * x" using assms(2) by (simp add: zero_less_mult_iff) linarith
  show "0 \<le> t * t" for t :: real by simp
qed

lemma dot_self:
  "(\<Sum>i<length v. v ! i * v ! i) = (\<Sum>x\<leftarrow>v. x * (x :: real))"
  using dot_index_sum [of "\<lambda>x. x" v "\<lambda>x. x"] by simp

section \<open>The range of the scores\<close>

lemma matchCount_eq:
  "matchCount toks ks = length (filter (\<lambda>k. k \<in> set toks) ks)"
  by (simp add: matchCount_def)

lemma round_percentage:
  assumes "0 \<le> x" "x \<le> (100 :: real)"
  shows "percentage (mathRound (Num x))"
proof -
  have "0 \<le> \<lfloor>x + 1 / 2\<rfloor>" using assms(1) by simp
  moreover have "\<lfloor>x + 1 / 2\<rfloor> \<le> 100"
    using assms(2) by (simp add: floor_le_iff)
  ultimately show ?thesis by (simp add: percentage_def)
qed

lemma matchCount_le: "matchCount toks ks \<le> length ks"
  by (simp add: matchCount_def)

lemma keywordMatchPercentage_percentage: "percentage (keywordMatchPercentage L r ks)"
proof (cases ks)
  case None
  then show ?thesis by (simp add: keywordMatchPercentage_def percentage_def)
next
  case (Some l)
  show ?thesis
  proof (cases "l = []")
    case True
    with Some show ?thesis by (simp add: keywordMatchPercentage_def percentage_def)
  next
    case False
    let ?m = "real (matchCount (cleanAndTokenize L r) l)" and ?n = "real (length l)"
    have n: "0 < ?n" using False by simp
    have "?m \<le> ?n" using matchCount_le [of "cleanAndTokenize L r" l] by simp
    then have "?m / ?n \<le> 1" using n by (simp add: divide_le_eq_1)
    then have "?m / ?n * 100 \<le> 1 * 100" by (rule mult_right_mono) simp
    then have "?m / ?n * 100 \<le> 100" by (simp only: mult_1)
    moreover have "0 \<le> ?m / ?n * 100" by simp
    ultimately have "percentage (mathRound (Num (?m / ?n * 100)))"
      by (intro round_percentage)
    with Some False show ?thesis
      by (simp add: keywordMatchPercentage_def Let_def)
  qed
qed

lemma semanticSimilarity_percentage:
  assumes "plainTokens (cleanAndTokenize L a @ cleanAndTokenize L b)"
  shows "percentage (semanticSimilarity L a b)"
proof -
  let ?A = "cleanAndTokenize L a" and ?B = "cleanAndTokenize L b"
  have "0 \<le> 100 * cosineOf ?A ?B" "100 * cosineOf ?A ?B \<le> 100"
    using cosineOf_nonneg [of ?A ?B] cosineOf_le_one [of ?A ?B] by simp_all
  then have "percentage (mathRound (Num (100 * cosineOf ?A ?B)))"
    by (rule round_percentage)
  with assms show ?thesis
    by (auto simp: semanticSimilarity_tokens Let_def percentage_def)
qed

lemma finalMatchScore_fields:
  "kwScore (finalMatchScore L r j) = keywordMatchPercentage L r (Some (keywordsOf j))"
  "semScore (finalMatchScore L r j) = semanticSimilarity L r (Some (descriptionOf j))"
  "final (finalMatchScore L r j) =
     mathRound (jadd (jmul (ofJsint (kwScore (finalMatchScore L r j))) (Num 0.4))
                     (jmul (ofJsint (semScore (finalMatchScore L r j))) (Num 0.6)))"
  by (simp_all add: finalMatchScore_def Let_def keywordsOf_def descriptionOf_def)

lemma weighted_percentage:
  assumes "percentage (Some k)" "percentage (Some s)"
  shows "percentage (mathRound (jadd (jmul (ofJsint (Some k)) (Num 0.4)) (jmul (ofJsint (Some s)) (Num 0.6))))"
proof -
  have "0 \<le> real_of_int k * 0.4 + real_of_int s * 0.6"
    using assms by (simp add: percentage_def)
  moreover have "real_of_int k * 0.4 + real_of_int s * 0.6 \<le> 100"
    using assms by (simp add: percentage_def)
  ultimately show ?thesis
    using round_percentage by simp
qed

lemma finalMatchScore_plain:
  assumes "plainTokens (cleanAndTokenize L r @ cleanAndTokenize L (Some (descriptionOf j)))"
  shows "\<exists>k s. kwScore (finalMatchScore L r j) = Some k \<and> semScore (finalMatchScore L r j) = Some s
     \<and> 0 \<le> k \<and> k \<le> 100 \<and> 0 \<le> s \<and> s \<le> 100
     \<and> percentage (final (finalMatchScore L r j))
     \<and> final (finalMatchScore L r j) = Some \<lfloor>0.4 * real_of_int k + 0.6 * real_of_int s + 1 / 2\<rfloor>"
proof -
  from keywordMatchPercentage_percentage [of L r "Some (keywordsOf j)"]
  obtain k where k: "keywordMatchPercentage L r (Some (keywordsOf j)) = Some k" "0 \<le> k" "k \<le> 100"
    by (auto simp: percentage_def split: option.splits)
  from semanticSimilarity_percentage [OF assms]
  obtain s where s: "semanticSimilarity L r (Some (descriptionOf j)) = Some s" "0 \<le> s" "s \<le> 100"
    by (auto simp: percentage_def split: option.splits)
  have p: "percentage (Some k)" "percentage (Some s)"
    using k s by (simp_all add: percentage_def)
  have f: "final (finalMatchScore L r j) =
      mathRound (jadd (jmul (ofJsint (Some k)) (Num 0.4)) (jmul (ofJsint (Some s)) (Num 0.6)))"
    by (simp only: finalMatchScore_fields k(1) s(1))
  have "percentage (final (finalMatchScore L r j))"
    unfolding f by (rule weighted_percentage [OF p])
  moreover have "final (finalMatchScore L r j) = Some \<lfloor>0.4 * real_of_int k + 0.6 * real_of_int s + 1 / 2\<rfloor>"
    unfolding f by (simp add: mult.commute)
  ultimately show ?thesis
    using k s by (simp add: finalMatchScore_fields)
qed

lemma constructor_inherited: "inheritedName ''constructor''"
  by (simp add: inheritedName_def objectPrototypeKeys_def)

lemma semanticSimilarity_constructor:
  "semanticSimilarity exampleLib (Some ''concept artist'') (Some ''artist for a constructor game'') = None"
  by (simp add: semanticSimilarity_tokens tokens_concept_artist tokens_constructor_game
      plainTokens_def constructor_inherited)

text \<open>The TF-IDF computation of a pair of documents with plain tokens.\<close>

lemma tfidf_pair_plain:
  assumes "plainTokens (A @ B)"
  shows "setOf (A @ B) = firstSeen (A @ B)"
    and "distinct (setOf (A @ B))"
    and "set (setOf (A @ B)) = set A \<union> set B"
    and "t \<in> set A \<union> set B \<Longrightarrow>
           getProp (computeIdf [A, B]) t
             = Val (Num (ln ((2 + 1) / (real (docCount A B t) + 1)) + 1))"
    and "0 < ln ((2 + 1) / (real (docCount A B t) + 1)) + 1"
    and "tfidfVector D (computeIdf [A, B]) (setOf (A @ B))
           = map (\<lambda>t. Num (real (count_list D t) * (ln ((2 + 1) / (real (docCount A B t) + 1)) + 1)))
               (setOf (A @ B))"
proof -
  show "setOf (A @ B) = firstSeen (A @ B)" by (rule setOf_firstSeen)
  show "distinct (setOf (A @ B))" by simp
  show "set (setOf (A @ B)) = set A \<union> set B" by simp
  show "0 < ln ((2 + 1) / (real (docCount A B t) + 1)) + 1"
    using idfOf_pos [of A B t] by (simp only: idfOf_def)
  have pl: "plainTokens (setOf (A @ B))"
    using assms by (simp add: plainTokens_iff)
  show "tfidfVector D (computeIdf [A, B]) (setOf (A @ B))
           = map (\<lambda>t. Num (real (count_list D t) * (ln ((2 + 1) / (real (docCount A B t) + 1)) + 1)))
               (setOf (A @ B))"
    using tfidfVector_plain [OF pl, of A B D]
    by (simp add: tfidfOf_def idfOf_def comp_def)
  assume t: "t \<in> set A \<union> set B"
  with assms have "\<not> inheritedName t"
    by (auto simp: plainTokens_iff)
  from computeIdf_plain [OF this t]
  show "getProp (computeIdf [A, B]) t
             = Val (Num (ln ((2 + 1) / (real (docCount A B t) + 1)) + 1))"
    by (simp only: idfOf_def)
qed

lemma artist_plain: "\<not> inheritedName ''artist''"
  by (simp add: inheritedName_def objectPrototypeKeys_def)

section \<open>Keyword extraction in closed form\<close>

lemma insort_key_map:
  "insort_key f (g x) (map g xs) = map g (insort_key (\<lambda>y. f (g y)) x xs)"
  by (induction xs) simp_all

lemma sort_key_map: "sort_key f (map g xs) = map g (sort_key (\<lambda>y. f (g y)) xs)"
  by (induction xs) (simp_all add: insort_key_map)

lemma keys_keywordFreq:
  assumes "plainTokens ts"
  shows "map fst (keywordFreq ts) = firstSeen ts"
proof -
  have "filter (\<lambda>t. t \<noteq> ''__proto__'') ts = ts"
    using assms proto_in_keys by (auto simp: plainTokens_iff inheritedName_def filter_id_conv)
  then show ?thesis
    by (simp add: keywordFreq_def keys_fold_bump_Nil setOf_firstSeen)
qed

lemma keywordWeight_pos: "0 < keywordWeight t"
  by (simp add: keywordWeight_def)

lemma getProp_keywordFreq:
  assumes "\<not> inheritedName k" "k \<in> set ts"
  shows "getProp (keywordFreq ts) k = Val (Num (accumulatedWeight ts k))"
  using getProp_fold_bump [of k keywordWeight ts] assms keywordWeight_pos
  by (simp add: keywordFreq_def inheritedName_def accumulatedWeight_def)

lemma objectEntries_keywordFreq:
  assumes "plainTokens ts"
  shows "objectEntries (keywordFreq ts)
     = map (\<lambda>k. (k, Val (Num (accumulatedWeight ts k)))) (propertyOrder (firstSeen ts))"
proof -
  have "k \<in> set (propertyOrder (firstSeen ts)) \<Longrightarrow>
        getProp (keywordFreq ts) k = Val (Num (accumulatedWeight ts k))" for k
    using assms
    by (intro getProp_keywordFreq)
       (auto simp: set_propertyOrder setOf_firstSeen [symmetric] plainTokens_iff)
  then show ?thesis
    by (simp add: objectEntries_def ownKeys_def keys_keywordFreq [OF assms])
qed

lemma sortDescBy_numeric:
  "list_all (\<lambda>x. key x \<noteq> NaN) xs \<Longrightarrow> sortDescBy key xs = Some (sort_key (\<lambda>x. - numOf (key x)) xs)"
  by (simp add: sortDescBy_def)

lemma extractKeywords_plain:
  assumes "plainTokens (cleanAndTokenize L text)"
  shows "extractKeywords L text limit =
     Some (rankByWeight (cleanAndTokenize L text)
             (propertyOrder (firstSeen (cleanAndTokenize L text))) limit)"
proof -
  let ?ts = "cleanAndTokenize L text"
  let ?es = "map (\<lambda>k. (k, Val (Num (accumulatedWeight ?ts k)))) (propertyOrder (firstSeen ?ts))"
  have num: "list_all (\<lambda>e. toNumber (snd e) \<noteq> NaN) ?es"
    by (simp add: list_all_iff)
  have "sortDescBy (\<lambda>e. toNumber (snd e)) ?es
      = Some (map (\<lambda>k. (k, Val (Num (accumulatedWeight ?ts k))))
               (sort_key (\<lambda>k. - accumulatedWeight ?ts k) (propertyOrder (firstSeen ?ts))))"
    by (simp only: sortDescBy_numeric [OF num] sort_key_map) simp
  then show ?thesis
    by (simp add: extractKeywords_def Let_def objectEntries_keywordFreq [OF assms]
        rankByWeight_def take_map comp_def)
qed

lemma propertyOrder_noArrayIndex: "noArrayIndex ks \<Longrightarrow> propertyOrder ks = ks"
  by (simp add: propertyOrder_def noArrayIndex_def list_all_iff filter_id_conv filter_empty_conv)

lemma noArrayIndex_firstSeen: "noArrayIndex ts \<Longrightarrow> noArrayIndex (firstSeen ts)"
  by (simp add: noArrayIndex_def list_all_iff setOf_firstSeen [symmetric])

text \<open>The example texts.\<close>

lemma tokens_design_example:
  "cleanAndTokenize exampleLib
     (Some ''concept concept artist artist artist design design design design'')
   = [''concept'', ''concept'', ''artist'', ''artist'', ''artist'',
      ''design'', ''design'', ''design'', ''design'']"
  by code_simp

lemma plain_design_example:
  "plainTokens [''concept'', ''concept'', ''artist'', ''artist'', ''artist'',
      ''design'', ''design'', ''design'', ''design'']"
  by code_simp

lemma noArrayIndex_design_example:
  "noArrayIndex [''concept'', ''concept'', ''artist'', ''artist'', ''artist'',
      ''design'', ''design'', ''design'', ''design'']"
  by code_simp

lemma firstSeen_design_example:
  "firstSeen [''concept'', ''concept'', ''artist'', ''artist'', ''artist'',
      ''design'', ''design'', ''design'', ''design''] = [''concept'', ''artist'', ''design'']"
  by (simp add: setOf_firstSeen [symmetric] setOf_def)

lemma weights_design_example:
  "accumulatedWeight [''concept'', ''concept'', ''artist'', ''artist'', ''artist'',
      ''design'', ''design'', ''design'', ''design''] ''concept'' = 8"
  "accumulatedWeight [''concept'', ''concept'', ''artist'', ''artist'', ''artist'',
      ''design'', ''design'', ''design'', ''design''] ''artist'' = 12"
  "accumulatedWeight [''concept'', ''concept'', ''artist'', ''artist'', ''artist'',
      ''design'', ''design'', ''design'', ''design''] ''design'' = 16"
  by (simp_all add: accumulatedWeight_def keywordWeight_def ART_KEYWORDS_def)

lemma spec_design_example:
  "extractKeywordsSpec exampleLib
     (Some ''concept concept artist artist artist design design design design'') 2
   = [''design'', ''artist'']"
  by (simp add: extractKeywordsSpec_def tokens_design_example firstSeen_design_example
      rankByWeight_def weights_design_example)

lemma tokens_zebra: "cleanAndTokenize exampleLib (Some ''zebra 200 100'') = [''zebra'', ''200'', ''100'']"
  by code_simp

lemma plain_zebra: "plainTokens [''zebra'', ''200'', ''100'']"
  by code_simp

lemma firstSeen_zebra: "firstSeen [''zebra'', ''200'', ''100''] = [''zebra'', ''200'', ''100'']"
  by (simp add: setOf_firstSeen [symmetric] setOf_def)

lemma arrayIndex_zebra:
  "arrayIndex ''zebra'' = None" "arrayIndex ''200'' = Some 200" "arrayIndex ''100'' = Some 100"
  by (simp_all add: arrayIndex_def digitChars_def decimalVal_def digitVal_def)

lemma propertyOrder_zebra: "propertyOrder [''zebra'', ''200'', ''100''] = [''100'', ''200'', ''zebra'']"
  by (simp add: propertyOrder_def arrayIndex_zebra)

lemma weights_zebra:
  "accumulatedWeight [''zebra'', ''200'', ''100''] ''zebra'' = 1"
  "accumulatedWeight [''zebra'', ''200'', ''100''] ''200'' = 1"
  "accumulatedWeight [''zebra'', ''200'', ''100''] ''100'' = 1"
  by (simp_all add: accumulatedWeight_def keywordWeight_def ART_KEYWORDS_def)

section \<open>Ranking\<close>

text \<open>Printing and reading back a score.\<close>

lemma digitVal_nth: "k < 10 \<Longrightarrow> digitVal (digitChars ! k) = k"
proof -
  assume "k < 10"
  then have "k = 0 \<or> k = 1 \<or> k = 2 \<or> k = 3 \<or> k = 4 \<or> k = 5 \<or> k = 6 \<or> k = 7 \<or> k = 8 \<or> k = 9"
    by arith
  then show ?thesis
    by (elim disjE) (simp_all add: digitVal_def digitChars_def)
qed

lemma digit_nth: "k < 10 \<Longrightarrow> digitChars ! k \<in> set digitChars"
  by (rule nth_mem) (simp add: digitChars_def)

lemma decimalVal_snoc: "decimalVal (s @ [c]) = 10 * decimalVal s + digitVal c"
  by (simp add: decimalVal_def)

lemma showNat_digits: "set (showNat n) \<subseteq> set digitChars"
proof (induction n rule: showNat.induct)
  case (1 n)
  show ?case
  proof (cases "n < 10")
    case True
    then show ?thesis by (subst showNat.simps) (simp add: digit_nth)
  next
    case False
    with 1 show ?thesis by (subst showNat.simps) (simp add: digit_nth)
  qed
qed

lemma showNat_nonempty: "showNat n \<noteq> []"
  by (subst showNat.simps) simp

lemma decimalVal_showNat: "decimalVal (showNat n) = n"
proof (induction n rule: showNat.induct)
  case (1 n)
  show ?case
  proof (cases "n < 10")
    case True
    then show ?thesis
      by (subst showNat.simps) (simp add: decimalVal_def digitVal_nth)
  next
    case False
    with 1 have "decimalVal (showNat (n div 10)) = n div 10" by simp
    with False show ?thesis
      by (subst showNat.simps) (simp add: decimalVal_snoc digitVal_nth)
  qed
qed

lemma takeWhile_showNat:
  "takeWhile (\<lambda>c. c \<in> set digitChars) (showNat n @ ''%'') = showNat n"
proof -
  have "\<forall>c \<in> set (showNat n). c \<in> set digitChars"
    using showNat_digits [of n] by auto
  moreover have "CHR ''%'' \<notin> set digitChars"
    by (simp add: digitChars_def)
  ultimately show ?thesis
    by (simp add: takeWhile_append2)
qed

lemma hd_showNat: "hd (showNat n) \<noteq> CHR ''-'' \<and> hd (showNat n) \<noteq> CHR ''+''"
proof -
  have "hd (showNat n) \<in> set digitChars"
    using showNat_digits [of n] showNat_nonempty [of n] by (meson hd_in_set subsetD)
  then show ?thesis by (auto simp: digitChars_def)
qed

lemma parseInt_percent: "parseInt (percent x) = x"
proof (cases x)
  case None
  then show ?thesis
    by (simp add: percent_def numberToString_def parseInt_def digitChars_def)
next
  case (Some n)
  show ?thesis
  proof (cases "n < 0")
    case True
    with Some show ?thesis
      by (simp add: percent_def numberToString_def parseInt_def takeWhile_showNat
          showNat_nonempty decimalVal_showNat)
  next
    case False
    have "showNat (nat n) @ ''%'' \<noteq> []" by simp
    with Some False hd_showNat [of "nat n"] showNat_nonempty [of "nat n"] show ?thesis
      by (simp add: percent_def numberToString_def parseInt_def takeWhile_showNat
          decimalVal_showNat Let_def)
  qed
qed

lemma score_of_entry:
  "parseInt (matchScore (matchEntryOf L r j)) = final (finalMatchScore L r j)"
  by (simp add: matchEntryOf_def Let_def parseInt_percent)

text \<open>The sort with numeric keys: a permutation, descending, stable.\<close>

lemma sortDescBy_props:
  assumes "list_all (\<lambda>x. key x \<noteq> NaN) xs"
  shows "\<exists>out. sortDescBy key xs = Some out \<and> mset out = mset xs
     \<and> sorted_wrt (\<lambda>a b. numOf (key b) \<le> numOf (key a)) out
     \<and> (\<forall>k. filter (\<lambda>x. key x = k) out = filter (\<lambda>x. key x = k) xs)"
proof -
  let ?f = "\<lambda>x. - numOf (key x)"
  let ?out = "sort_key ?f xs"
  have num: "\<forall>x \<in> set xs. key x \<noteq> NaN"
    using assms by (simp add: list_all_iff)
  have s: "sortDescBy key xs = Some ?out"
    using assms by (simp add: sortDescBy_def)
  have m: "mset ?out = mset xs" by simp
  have "sorted (map ?f ?out)" by (rule sorted_sort_key)
  then have d: "sorted_wrt (\<lambda>a b. numOf (key b) \<le> numOf (key a)) ?out"
    by (simp add: sorted_map)
  have st: "filter (\<lambda>x. key x = k) ?out = filter (\<lambda>x. key x = k) xs" for k
  proof (cases k)
    case NaN
    have "filter (\<lambda>x. key x = NaN) ?out = []" "filter (\<lambda>x. key x = NaN) xs = []"
      using num by (simp_all add: filter_empty_conv)
    with NaN show ?thesis by simp
  next
    case (Num c)
    have eq: "x \<in> set xs \<Longrightarrow> (key x = Num c) = (?f x = - c)" for x
      using num by (cases "key x") auto
    have "filter (\<lambda>x. key x = Num c) ?out = filter (\<lambda>x. ?f x = - c) ?out"
      by (rule filter_cong) (simp_all add: eq)
    also have "\<dots> = filter (\<lambda>x. ?f x = - c) xs"
      by (rule sort_key_stable)
    also have "\<dots> = filter (\<lambda>x. key x = Num c) xs"
      by (rule filter_cong) (simp_all add: eq)
    finally show ?thesis using Num by simp
  qed
  from s m d st show ?thesis by blast
qed

lemma matches_numeric:
  assumes "list_all (\<lambda>j. final (finalMatchScore L r j) \<noteq> None) jobs"
  shows "\<exists>out. matches L r jobs = Some out
     \<and> mset out = mset (map (matchEntryOf L r) jobs)
     \<and> sorted_wrt (\<lambda>a b. the (parseInt (matchScore b)) \<le> the (parseInt (matchScore a))) out
     \<and> (\<forall>s. filter (\<lambda>e. parseInt (matchScore e) = s) out
              = filter (\<lambda>e. parseInt (matchScore e) = s) (map (matchEntryOf L r) jobs))"
proof -
  let ?es = "map (matchEntryOf L r) jobs"
  let ?key = "\<lambda>e. ofJsint (parseInt (matchScore e))"
  have num: "\<forall>e \<in> set ?es. parseInt (matchScore e) \<noteq> None"
    using assms by (auto simp: list_all_iff score_of_entry)
  then have "list_all (\<lambda>e. ?key e \<noteq> NaN) ?es"
    by (auto simp: list_all_iff)
  from sortDescBy_props [OF this] obtain out where
    o: "sortDescBy ?key ?es = Some out" and m: "mset out = mset ?es"
    and d: "sorted_wrt (\<lambda>a b. numOf (?key b) \<le> numOf (?key a)) out"
    and st: "\<forall>k. filter (\<lambda>e. ?key e = k) out = filter (\<lambda>e. ?key e = k) ?es"
    by blast
  have so: "set out = set ?es" using m by (rule mset_eq_setD)
  have val: "e \<in> set ?es \<Longrightarrow> numOf (?key e) = real_of_int (the (parseInt (matchScore e)))" for e
    using num by (cases "parseInt (matchScore e)") auto
  have d': "sorted_wrt (\<lambda>a b. the (parseInt (matchScore b)) \<le> the (parseInt (matchScore a))) out"
    by (rule sorted_wrt_mono_rel [OF _ d]) (simp add: so val)
  have inj: "(?key e = ofJsint s) = (parseInt (matchScore e) = s)" for e s
    by (cases "parseInt (matchScore e)"; cases s) simp_all
  have st': "filter (\<lambda>e. parseInt (matchScore e) = s) out
              = filter (\<lambda>e. parseInt (matchScore e) = s) ?es" for s
    using st [rule_format, of "ofJsint s"] by (simp only: inj)
  from o m d' st' show ?thesis
    by (auto simp: matches_def)
qed

lemma tokens_empty: "cleanAndTokenize L (Some []) = []"
  by (simp add: cleanAndTokenize_def)

lemma final_empty_description:
  "final (finalMatchScore exampleLib (Some ''concept artist'') (jobWith i [] [''zebra''])) = Some 0"
  "final (finalMatchScore exampleLib (Some ''concept artist'') (jobWith i [] [''artist''])) = Some 40"
  by (simp_all add: finalMatchScore_def jobWith_def keywordMatchPercentage_def matchCount_eq
      tokens_concept_artist Let_def semanticSimilarity_empty tokens_empty)

lemma final_constructor:
  "final (finalMatchScore exampleLib (Some ''concept artist'')
     (jobWith i ''artist for a constructor game'' [''artist'', ''game''])) = None"
  by (simp add: finalMatchScore_def jobWith_def semanticSimilarity_constructor Let_def)

text \<open>Every final score is a number when all tokens are plain.\<close>

lemma matches_plain:
  assumes "list_all (\<lambda>j. plainTokens (cleanAndTokenize L r @ cleanAndTokenize L (Some (descriptionOf j)))) jobs"
  shows "\<exists>out. matches L r jobs = Some out
     \<and> mset out = mset (map (matchEntryOf L r) jobs)
     \<and> sorted_wrt (\<lambda>a b. the (parseInt (matchScore b)) \<le> the (parseInt (matchScore a))) out
     \<and> (\<forall>s. filter (\<lambda>e. parseInt (matchScore e) = s) out
              = filter (\<lambda>e. parseInt (matchScore e) = s) (map (matchEntryOf L r) jobs))"
proof (rule matches_numeric)
  have "final (finalMatchScore L r j) \<noteq> None" if "j \<in> set jobs" for j
  proof -
    from that assms
    have "plainTokens (cleanAndTokenize L r @ cleanAndTokenize L (Some (descriptionOf j)))"
      by (simp add: list_all_iff)
    from finalMatchScore_plain [OF this] have "percentage (final (finalMatchScore L r j))"
      by blast
    then show ?thesis by (auto simp: percentage_def split: option.splits)
  qed
  then show "list_all (\<lambda>j. final (finalMatchScore L r j) \<noteq> None) jobs"
    by (simp add: list_all_iff)
qed

section \<open>Evaluation in double precision\<close>

text \<open>
  The double nearest to a positive number \<open>x\<close> below \<open>2^53\<close>: scale \<open>x\<close> by \<open>2^k\<close> into
  \<open>[2^52, 2^53)\<close>, round to the nearest integer, and scale back.
\<close>

lemma scaled_up:
  assumes "0 < x" "2 ^ 52 \<le> x * 2 ^ k" "x * 2 ^ k < 2 ^ 53" "k \<le> n"
  shows "scaled n x e = (x * 2 ^ k, e - int k)"
  using assms
proof (induction k arbitrary: x e n)
  case 0
  then show ?case by (subst scaled.simps) simp
next
  case (Suc k)
  have "x * 2 ^ k * 2 < 2 ^ 52 * 2" using Suc.prems(3) by simp
  then have "x * 2 ^ k < 2 ^ 52" by simp
  moreover have "x \<le> x * 2 ^ k" using Suc.prems(1) by simp
  ultimately have x: "x < 2 ^ 52" by linarith
  from Suc.prems have n: "n \<noteq> 0" "k \<le> n - 1" by simp_all
  have "scaled (n - 1) (2 * x) (e - 1) = (2 * x * 2 ^ k, e - 1 - int k)"
    using Suc.prems n by (intro Suc.IH) (simp_all add: mult.assoc mult.left_commute)
  with x n show ?case
    by (subst scaled.simps) (simp add: mult.assoc mult.left_commute)
qed

lemma fl_scaled:
  assumes "0 < x" "2 ^ 52 \<le> x * 2 ^ k" "x * 2 ^ k < 2 ^ 53" "k \<le> 2200"
  shows "fl x = real_of_int (roundToEven (x * 2 ^ k)) / 2 ^ k"
proof -
  have "scaled 2200 x 0 = (x * 2 ^ k, 0 - int k)"
    using assms by (rule scaled_up)
  moreover have "\<bar>x\<bar> = x" using assms(1) by simp
  ultimately show ?thesis using assms(1)
    by (simp add: fl_def power_int_minus divide_inverse)
qed

lemma fl_23_40: "fl (23 / 40) = 5179139571476070 / 2 ^ 53"
  by (subst fl_scaled [where k = 53]) (simp_all add: roundToEven_def)

lemma fl_times_100: "fl (5179139571476070 / 2 ^ 53 * 100) = 8092405580431359 / 2 ^ 47"
  by (subst fl_scaled [where k = 47]) (simp_all add: roundToEven_def)

lemma fl_1: "fl 1 = 1"
  by (subst fl_scaled [where k = 52]) (simp_all add: roundToEven_def)

lemma fl_2: "fl 2 = 2"
  by (subst fl_scaled [where k = 51]) (simp_all add: roundToEven_def)

lemma sqrt2_lower: "6369051672525772 + 1 / 2 < sqrt 2 * 2 ^ 52"
proof -
  have "((6369051672525772 + 1 / 2) / 2 ^ 52 :: real)\<^sup>2 < 2"
    by (simp add: power2_eq_square)
  then have "(6369051672525772 + 1 / 2) / 2 ^ 52 < sqrt 2"
    by (rule real_less_rsqrt)
  then show ?thesis by (simp add: field_simps)
qed

lemma sqrt2_upper: "sqrt 2 * 2 ^ 52 < 6369051672525773"
proof -
  have "(2 :: real) < (6369051672525773 / 2 ^ 52)\<^sup>2"
    by (simp add: power2_eq_square)
  then have "sqrt 2 < 6369051672525773 / 2 ^ 52"
    by (intro real_less_lsqrt) simp_all
  then show ?thesis by (simp add: field_simps)
qed

lemma roundToEven_up:
  assumes "real_of_int n + 1 / 2 < x" "x < real_of_int n + 1"
  shows "roundToEven x = n + 1"
proof -
  have f: "\<lfloor>x\<rfloor> = n" using assms by (intro floor_unique) simp_all
  show ?thesis using assms by (simp add: roundToEven_def f Let_def)
qed

lemma round_sqrt2: "roundToEven (sqrt 2 * 2 ^ 52) = 6369051672525773"
  using roundToEven_up [of 6369051672525772 "sqrt 2 * 2 ^ 52"] sqrt2_lower sqrt2_upper
  by simp

lemma fl_sqrt2: "fl (sqrt 2) = 6369051672525773 / 2 ^ 52"
proof -
  have "fl (sqrt 2) = real_of_int (roundToEven (sqrt 2 * 2 ^ 52)) / 2 ^ 52"
    using sqrt2_lower sqrt2_upper by (intro fl_scaled) simp_all
  also have "\<dots> = 6369051672525773 / 2 ^ 52"
    by (simp only: round_sqrt2 of_int_numeral)
  finally show ?thesis .
qed

lemma fl_square: "fl (6369051672525773 / 2 ^ 52 * (6369051672525773 / 2 ^ 52)) = 4503599627370497 / 2 ^ 51"
  by (subst fl_scaled [where k = 51]) (simp_all add: roundToEven_def)

lemma fl_quotient: "fl (2 / (4503599627370497 / 2 ^ 51)) = 9007199254740990 / 2 ^ 53"
  by (subst fl_scaled [where k = 53]) (simp_all add: roundToEven_def)

text \<open>The error of one rounding, and the numbers that are not rounded at all.\<close>

lemma roundToEven_error: "\<bar>real_of_int (roundToEven y) - y\<bar> \<le> 1 / 2"
proof -
  have "real_of_int \<lfloor>y\<rfloor> \<le> y" "y < real_of_int \<lfloor>y\<rfloor> + 1"
    by linarith+
  then show ?thesis
    by (auto simp: roundToEven_def Let_def)
qed

lemma roundToEven_of_int: "roundToEven (real_of_int n) = n"
  by (simp add: roundToEven_def)

lemma scale_exists:
  assumes "0 < x" "x < 2 ^ 53" "2 ^ 52 \<le> x * 2 ^ j"
  shows "\<exists>k \<le> j. 2 ^ 52 \<le> x * 2 ^ k \<and> x * 2 ^ k < (2 :: real) ^ 53"
  using assms(3)
proof (induction j)
  case 0
  with assms(2) show ?case by auto
next
  case (Suc j)
  show ?case
  proof (cases "x * 2 ^ Suc j < 2 ^ 53")
    case True
    with Suc.prems show ?thesis by blast
  next
    case False
    then have "2 ^ 52 * 2 \<le> x * 2 ^ j * 2" by simp
    then have "2 ^ 52 \<le> x * 2 ^ j" by simp
    from Suc.IH [OF this] obtain k where "k \<le> j" "2 ^ 52 \<le> x * 2 ^ k" "x * 2 ^ k < 2 ^ 53"
      by blast
    then show ?thesis by (intro exI [of _ k]) simp
  qed
qed

lemma fl_error:
  assumes "0 < x" "x < 2 ^ 53" "2 ^ 52 \<le> x * 2 ^ j" "j \<le> 2200"
  shows "\<bar>fl x - x\<bar> \<le> x / 2 ^ 53"
proof -
  from scale_exists [OF assms(1-3)] obtain k where
    k: "k \<le> j" "2 ^ 52 \<le> x * 2 ^ k" "x * 2 ^ k < 2 ^ 53" by blast
  define y where "y = x * 2 ^ k"
  define p where "p = (2 :: real) ^ k"
  have p: "0 < p" by (simp add: p_def)
  have y: "2 ^ 52 \<le> y" using k(2) by (simp add: y_def)
  have xy: "x = y / p" using p by (simp add: y_def p_def)
  have "fl x = real_of_int (roundToEven (x * 2 ^ k)) / 2 ^ k"
    using assms(1) k(2,3) by (rule fl_scaled) (use k(1) assms(4) in linarith)
  then have f: "fl x = real_of_int (roundToEven y) / p"
    by (simp only: y_def p_def)
  have "fl x - x = real_of_int (roundToEven y) / p - x"
    by (simp only: f)
  also have "\<dots> = real_of_int (roundToEven y) / p - y / p"
    using xy by simp
  finally have "fl x - x = (real_of_int (roundToEven y) - y) / p"
    by (simp only: diff_divide_distrib)
  then have "\<bar>fl x - x\<bar> = \<bar>real_of_int (roundToEven y) - y\<bar> / p"
    using p by (simp only: abs_divide abs_of_pos)
  also have "\<dots> \<le> (1 / 2) / p"
    using p by (intro divide_right_mono roundToEven_error) linarith
  also have "\<dots> \<le> (y / 2 ^ 53) / p"
  proof (rule divide_right_mono)
    have "(1 / 2 :: real) = 2 ^ 52 / 2 ^ 53" by simp
    also have "\<dots> \<le> y / 2 ^ 53" using y by (intro divide_right_mono) simp_all
    finally show "1 / 2 \<le> y / 2 ^ 53" .
    show "0 \<le> p" using p by linarith
  qed
  also have "\<dots> = x / 2 ^ 53" by (simp only: xy divide_divide_eq_left mult.commute)
  finally show ?thesis .
qed

lemma real_nat_less_pow: "a < 2 ^ 53 \<Longrightarrow> real a < 2 ^ 53"
proof -
  assume "a < 2 ^ 53"
  then have "real a < real (2 ^ 53)" by (simp only: of_nat_less_iff)
  then show ?thesis by simp
qed

lemma fl_dyadic:
  assumes "0 < a" "a < 2 ^ 53" "i \<le> 2000"
  shows "fl (real a / 2 ^ i) = real a / 2 ^ i"
proof -
  define x where "x = real a / 2 ^ i"
  have a1: "1 \<le> real a" using assms(1) by simp
  have a53: "real a < 2 ^ 53" using assms(2) by (rule real_nat_less_pow)
  have pos: "0 < x" using assms(1) by (simp add: x_def)
  have xa: "x * 2 ^ i = real a" by (simp add: x_def)
  have "x \<le> x * 2 ^ i" using pos by simp
  then have lt: "x < 2 ^ 53" using a53 xa by linarith
  have "x * 2 ^ (i + 52) = x * 2 ^ i * 2 ^ 52"
    by (simp add: power_add)
  also have "\<dots> = real a * 2 ^ 52" by (simp only: xa)
  finally have "x * 2 ^ (i + 52) = real a * 2 ^ 52" .
  moreover have "1 * (2 :: real) ^ 52 \<le> real a * 2 ^ 52"
    using a1 by (intro mult_right_mono) simp_all
  ultimately have "2 ^ 52 \<le> x * 2 ^ (i + 52)" by linarith
  from scale_exists [OF pos lt this] obtain k where
    k: "k \<le> i + 52" "2 ^ 52 \<le> x * 2 ^ k" "x * 2 ^ k < 2 ^ 53" by blast
  have ik: "i \<le> k"
  proof (rule ccontr)
    assume "\<not> i \<le> k"
    then have "Suc k \<le> i" by simp
    then have "(2 :: real) ^ Suc k \<le> 2 ^ i"
      by (intro power_increasing) simp_all
    then have "x * 2 ^ Suc k \<le> x * 2 ^ i"
      using pos by (intro mult_left_mono) simp_all
    then have "x * 2 ^ Suc k < 2 ^ 53" using a53 xa by linarith
    moreover have "x * 2 ^ Suc k = x * 2 ^ k * 2" by simp
    moreover have "(2 :: real) ^ 53 = 2 ^ 52 * 2" by simp
    ultimately have "x * 2 ^ k * 2 < 2 ^ 52 * 2" by linarith
    then have "x * 2 ^ k < 2 ^ 52" by linarith
    with k(2) show False by linarith
  qed
  then obtain d where d: "k = i + d" using le_Suc_ex by blast
  have "x * 2 ^ k = x * 2 ^ i * 2 ^ d"
    by (simp add: d power_add)
  also have "\<dots> = real a * 2 ^ d" by (simp only: xa)
  also have "\<dots> = real_of_int (int (a * 2 ^ d))" by simp
  finally have int: "x * 2 ^ k = real_of_int (int (a * 2 ^ d))" .
  have "fl x = real_of_int (roundToEven (x * 2 ^ k)) / 2 ^ k"
    using pos k(2,3) by (rule fl_scaled) (use k(1) assms(3) in linarith)
  also have "\<dots> = x * 2 ^ k / 2 ^ k"
    by (simp only: int roundToEven_of_int)
  also have "\<dots> = x" by simp
  finally show ?thesis by (simp only: x_def)
qed

lemma fl_zero: "fl 0 = 0"
  by (simp add: fl_def)

section \<open>The keyword percentage in double precision\<close>

lemma keywordMatchPercentageD_23_40:
  "keywordMatchPercentageD exampleLib (Some ''artist'')
     (Some (replicate 23 ''artist'' @ replicate 17 ''zebra'')) = 57"
proof -
  have t: "cleanAndTokenize exampleLib (Some ''artist'') = [''artist'']"
    by (rule tokens_artist)
  have m: "matchCount [''artist''] (replicate 23 ''artist'' @ replicate 17 ''zebra'') = 23"
    by (simp add: matchCount_eq)
  have e: "dmul (ddiv 23 40) 100 = 8092405580431359 / 2 ^ 47"
    by (simp only: ddiv_def dmul_def fl_23_40 fl_times_100)
  have r: "\<lfloor>dmul (ddiv 23 40) 100 + 1 / 2\<rfloor> = 57"
    by (simp only: e) simp
  show ?thesis
    by (simp add: keywordMatchPercentageD_def t m r)
qed

text \<open>
  The percentage of at most 25 keywords: the two roundings move the product by less
  than the distance of \<open>100 * m / n\<close> to a tie, and the ties themselves are computed
  exactly.
\<close>

lemma tie_table:
  "list_all (\<lambda>n. list_all (\<lambda>m. (200 * m + n) mod (2 * n) = 0 \<longrightarrow> (8 * m) mod n = 0) [0 ..< Suc n])
     [1 ..< 26 :: nat]"
  by (simp add: upt_rec)

lemma floor_stable:
  fixes T d :: nat and y :: real
  assumes "0 < d" "T mod d \<noteq> 0" "\<bar>y - real T / real d\<bar> < 1 / real d"
  shows "\<lfloor>y\<rfloor> = int (T div d)"
proof -
  define r where "r = T mod d"
  have r: "1 \<le> r" "r + 1 \<le> d" using assms(1,2) by (simp_all add: r_def Suc_leI)
  have "real T = real d * real (T div d) + real r"
    unfolding r_def by (metis mult_div_mod_eq of_nat_add of_nat_mult)
  then have t: "real T / real d = real (T div d) + real r / real d"
    using assms(1) by (simp add: field_simps)
  have dpos: "0 < real d" using assms(1) by simp
  have lo: "1 / real d \<le> real r / real d"
    using r(1) dpos by (intro divide_right_mono) simp_all
  have "real r + 1 \<le> real d" using r(2) by (metis of_nat_1 of_nat_add of_nat_le_iff)
  then have "(real r + 1) / real d \<le> real d / real d"
    using dpos by (intro divide_right_mono) simp_all
  then have hi: "real r / real d + 1 / real d \<le> 1"
    using dpos by (simp add: add_divide_distrib)
  from assms(3) have "real T / real d - 1 / real d < y" "y < real T / real d + 1 / real d"
    by linarith+
  with t lo hi have "real (T div d) \<le> y" "y < real (T div d) + 1"
    by linarith+
  then show ?thesis by (intro floor_unique) simp_all
qed

lemma percent_error:
  fixes m n :: nat
  assumes "1 \<le> m" "m \<le> n" "n \<le> 25"
  shows "\<bar>dmul (ddiv (real m) (real n)) 100 - 100 * real m / real n\<bar> \<le> 300 / 2 ^ 53"
proof -
  define q where "q = real m / real n"
  define q' where "q' = fl q"
  define p where "p = q' * 100"
  define u where "u = (1 :: real) / 2 ^ 53"
  have u: "0 < u" "u \<le> 1 / 64" by (simp_all add: u_def)
  have npos: "0 < real n" using assms by simp
  have q1: "q \<le> 1" using assms npos by (simp add: q_def)
  have "real n \<le> 25" using assms(3) by simp
  moreover have "1 \<le> real m" using assms(1) by simp
  ultimately have "1 / 25 \<le> q"
    unfolding q_def using npos by (simp add: field_simps)
  then have qlo: "1 / 32 \<le> q" by linarith
  have qpos: "0 < q" using qlo by linarith
  have "q * 2 ^ 57 = q * 32 * 2 ^ 52" by simp
  moreover have "1 * (2 :: real) ^ 52 \<le> q * 32 * 2 ^ 52"
    using qlo by (intro mult_right_mono) simp_all
  ultimately have "2 ^ 52 \<le> q * 2 ^ 57" by linarith
  then have "\<bar>fl q - q\<bar> \<le> q / 2 ^ 53"
    using qpos q1 by (intro fl_error [where j = 57]) simp_all
  also have "q / 2 ^ 53 = q * u" by (simp add: u_def)
  also have "q * u \<le> 1 * u" using q1 u(1) by (intro mult_right_mono) simp_all
  finally have e1: "\<bar>q' - q\<bar> \<le> u" by (simp only: q'_def mult_1)
  have q'lo: "1 / 64 \<le> q'" and q'hi: "q' \<le> 2"
    using e1 qlo q1 u by linarith+
  have plo: "1 \<le> p" and phi: "p \<le> 200"
    using q'lo q'hi by (simp_all add: p_def)
  have "1 * (2 :: real) ^ 52 \<le> p * 2 ^ 52"
    using plo by (intro mult_right_mono) simp_all
  then have "2 ^ 52 \<le> p * 2 ^ 52" by simp
  then have "\<bar>fl p - p\<bar> \<le> p / 2 ^ 53"
    using plo phi by (intro fl_error [where j = 52]) simp_all
  also have "p / 2 ^ 53 = p * u" by (simp add: u_def)
  also have "p * u \<le> 200 * u" using phi u(1) by (intro mult_right_mono) simp_all
  finally have e2: "\<bar>fl p - p\<bar> \<le> 200 * u" .
  have pq: "p - 100 * q = 100 * q' - 100 * q" by (simp add: p_def)
  have d: "dmul (ddiv (real m) (real n)) 100 = fl p"
    by (simp add: dmul_def ddiv_def p_def q'_def q_def)
  have x: "100 * real m / real n = 100 * q"
    by (simp add: q_def)
  have "\<bar>fl p - 100 * q\<bar> \<le> 300 * u"
    using e1 e2 pq unfolding abs_le_iff by (elim conjE, intro conjI) linarith+
  also have "300 * u = 300 / 2 ^ 53" by (simp add: u_def)
  finally show ?thesis by (simp only: d x)
qed

lemma tie_divides:
  fixes m n :: nat
  assumes "1 \<le> n" "n \<le> 25" "m \<le> n" "(200 * m + n) mod (2 * n) = 0"
  shows "(8 * m) mod n = 0"
proof -
  have n: "n \<in> set [1 ..< 26]" and m: "m \<in> set [0 ..< Suc n]"
    using assms by auto
  have "\<forall>n \<in> set [1 ..< 26 :: nat]. \<forall>m \<in> set [0 ..< Suc n].
          (200 * m + n) mod (2 * n) = 0 \<longrightarrow> (8 * m) mod n = 0"
    using tie_table unfolding list_all_iff .
  from this n have "\<forall>m \<in> set [0 ..< Suc n]. (200 * m + n) mod (2 * n) = 0 \<longrightarrow> (8 * m) mod n = 0"
    by (rule bspec)
  from this m have "(200 * m + n) mod (2 * n) = 0 \<longrightarrow> (8 * m) mod n = 0"
    by (rule bspec)
  from this assms(4) show ?thesis by (rule mp)
qed

lemma percent_tie:
  fixes m n :: nat
  assumes "1 \<le> m" "m \<le> n" "n \<le> 25" "(200 * m + n) mod (2 * n) = 0"
  shows "dmul (ddiv (real m) (real n)) 100 = 100 * real m / real n"
proof -
  have n: "1 \<le> n" using assms by simp
  from tie_divides [OF n assms(3,2,4)] have "n dvd 8 * m"
    by (simp only: dvd_eq_mod_eq_0)
  then obtain j where j: "8 * m = n * j"
    by (auto elim: dvdE)
  have jpos: "0 < j" using j assms(1) by (cases j) simp_all
  have "n * j \<le> 8 * n" using j assms(2) by linarith
  then have "n * j \<le> n * 8" by (simp only: mult.commute)
  then have j8: "j \<le> 8" using n by simp
  have "8 * real m = real n * real j"
    using j by (metis of_nat_mult of_nat_numeral)
  then have q: "real m / real n = real j / 2 ^ 3"
    using n by (simp add: field_simps)
  have "j < 2 ^ 53"
  proof -
    have "(8 :: nat) < 2 ^ 53" by simp
    with j8 show ?thesis by linarith
  qed
  with jpos have e1: "fl (real j / 2 ^ 3) = real j / 2 ^ 3"
    by (intro fl_dyadic) simp_all
  have h: "real j / 2 ^ 3 * 100 = real (25 * j) / 2 ^ 1"
    by simp
  have "25 * j < 2 ^ 53"
  proof -
    have "(200 :: nat) < 2 ^ 53" by simp
    with j8 show ?thesis by linarith
  qed
  with jpos have e2: "fl (real (25 * j) / 2 ^ 1) = real (25 * j) / 2 ^ 1"
    by (intro fl_dyadic) simp_all
  have "dmul (ddiv (real m) (real n)) 100 = fl (fl (real j / 2 ^ 3) * 100)"
    by (simp only: dmul_def ddiv_def q)
  also have "\<dots> = real (25 * j) / 2 ^ 1"
    by (simp only: e1 h e2)
  also have "\<dots> = 100 * (real j / 2 ^ 3)" by simp
  also have "\<dots> = 100 * real m / real n" by (simp only: q [symmetric] times_divide_eq_right)
  finally show ?thesis .
qed

lemma percent_double_exact:
  fixes m n :: nat
  assumes "1 \<le> n" "m \<le> n" "n \<le> 25"
  shows "\<lfloor>dmul (ddiv (real m) (real n)) 100 + 1 / 2\<rfloor> = \<lfloor>100 * real m / real n + 1 / 2\<rfloor>"
proof (cases "m = 0")
  case True
  then show ?thesis by (simp add: dmul_def ddiv_def fl_zero)
next
  case False
  then have m: "1 \<le> m" by simp
  show ?thesis
  proof (cases "(200 * m + n) mod (2 * n) = 0")
    case True
    from percent_tie [OF m assms(2,3) True] show ?thesis by simp
  next
    case False
    define T where "T = 200 * m + n"
    define d where "d = 2 * n"
    have dpos: "0 < d" using assms(1) by (simp add: d_def)
    have nz: "T mod d \<noteq> 0" using False by (simp add: T_def d_def)
    have t: "100 * real m / real n + 1 / 2 = real T / real d"
      using assms(1) by (simp add: T_def d_def field_simps)
    have "real n \<le> 25" using assms(3) by simp
    then have "1 / 50 \<le> 1 / real d"
      using assms(1) by (simp add: d_def field_simps)
    moreover have "(300 :: real) / 2 ^ 53 < 1 / 50" by simp
    ultimately have small: "300 / 2 ^ 53 < 1 / real d" by linarith
    have near: "\<bar>dmul (ddiv (real m) (real n)) 100 + 1 / 2 - real T / real d\<bar> < 1 / real d"
      using percent_error [OF m assms(2,3)] small unfolding t [symmetric] by linarith
    have a: "\<lfloor>dmul (ddiv (real m) (real n)) 100 + 1 / 2\<rfloor> = int (T div d)"
      by (rule floor_stable [OF dpos nz near])
    have "\<bar>real T / real d - real T / real d\<bar> < 1 / real d" using dpos by simp
    then have b: "\<lfloor>real T / real d\<rfloor> = int (T div d)"
      by (rule floor_stable [OF dpos nz])
    show ?thesis by (simp only: a t b)
  qed
qed

lemma keywordMatchPercentageD_short:
  assumes "ks \<noteq> []" "length ks \<le> 25"
  shows "keywordMatchPercentageD L text (Some ks) =
    \<lfloor>100 * real (length (filter (\<lambda>k. k \<in> set (cleanAndTokenize L text)) ks))
         / real (length ks) + 1 / 2\<rfloor>"
proof -
  have "1 \<le> length ks" using assms(1) by (cases ks) simp_all
  from percent_double_exact [OF this matchCount_le assms(2), of "cleanAndTokenize L text"] assms(1)
  show ?thesis
    by (simp add: keywordMatchPercentageD_def Let_def matchCount_eq)
qed

section \<open>Rounding over the whole range\<close>

text \<open>Numbers of \<open>2^53\<close> and more are scaled down.\<close>

lemma scaled_down:
  assumes "2 ^ 52 \<le> x / 2 ^ k" "x / 2 ^ k < 2 ^ 53" "k \<le> n"
  shows "scaled n x e = (x / 2 ^ k, e + int k)"
  using assms
proof (induction k arbitrary: x e n)
  case 0
  then show ?case by (subst scaled.simps) simp
next
  case (Suc k)
  have "0 < x / 2 ^ Suc k"
    using Suc.prems(1) by (meson less_le_trans zero_less_numeral zero_less_power)
  then have pos: "0 < x" by (simp add: zero_less_divide_iff)
  have "(2 :: real) ^ 1 \<le> 2 ^ Suc k" by (intro power_increasing) simp_all
  then have "x / 2 ^ Suc k \<le> x / 2 ^ 1"
    using pos by (intro divide_left_mono) simp_all
  with Suc.prems(1) have "2 ^ 52 \<le> x / 2" by simp
  then have x: "2 ^ 53 \<le> x" by simp
  from Suc.prems have n: "n \<noteq> 0" "k \<le> n - 1" by simp_all
  have "scaled (n - 1) (x / 2) (e + 1) = (x / 2 / 2 ^ k, e + 1 + int k)"
    using Suc.prems n by (intro Suc.IH) (simp_all add: field_simps)
  with x n show ?case
    by (subst scaled.simps) (simp add: field_simps)
qed

lemma fl_scaled_down:
  assumes "2 ^ 52 \<le> x / 2 ^ k" "x / 2 ^ k < 2 ^ 53" "k \<le> 2200"
  shows "fl x = real_of_int (roundToEven (x / 2 ^ k)) * 2 ^ k"
proof -
  have "0 < x / 2 ^ k" using assms(1) by (meson less_le_trans zero_less_numeral zero_less_power)
  then have pos: "0 < x" by (simp add: zero_less_divide_iff)
  have "scaled 2200 x 0 = (x / 2 ^ k, 0 + int k)"
    using assms by (rule scaled_down)
  moreover have "\<bar>x\<bar> = x" using pos by simp
  ultimately show ?thesis using pos
    by (simp add: fl_def)
qed

lemma scale_exists_down:
  assumes "2 ^ 52 \<le> x" "x / 2 ^ j < 2 ^ 53"
  shows "\<exists>k \<le> j. 2 ^ 52 \<le> x / 2 ^ k \<and> x / 2 ^ k < (2 :: real) ^ 53"
  using assms(2)
proof (induction j)
  case 0
  with assms(1) show ?case by auto
next
  case (Suc j)
  show ?case
  proof (cases "2 ^ 52 \<le> x / 2 ^ Suc j")
    case True
    with Suc.prems show ?thesis by blast
  next
    case False
    then have "x / 2 ^ j / 2 < 2 ^ 52" by (simp add: field_simps)
    then have "x / 2 ^ j < 2 ^ 53" by simp
    from Suc.IH [OF this] obtain k where "k \<le> j" "2 ^ 52 \<le> x / 2 ^ k" "x / 2 ^ k < 2 ^ 53"
      by blast
    then show ?thesis by (intro exI [of _ k]) simp
  qed
qed

lemma fl_error_large:
  assumes "2 ^ 52 \<le> x" "x / 2 ^ j < 2 ^ 53" "j \<le> 2200"
  shows "\<bar>fl x - x\<bar> \<le> x / 2 ^ 53"
proof -
  from scale_exists_down [OF assms(1,2)] obtain k where
    k: "k \<le> j" "2 ^ 52 \<le> x / 2 ^ k" "x / 2 ^ k < 2 ^ 53" by blast
  define y where "y = x / 2 ^ k"
  define p where "p = (2 :: real) ^ k"
  have p: "0 < p" by (simp add: p_def)
  have y: "2 ^ 52 \<le> y" using k(2) by (simp add: y_def)
  have xy: "x = y * p" using p by (simp add: y_def p_def)
  have "fl x = real_of_int (roundToEven (x / 2 ^ k)) * 2 ^ k"
    using k(2,3) by (rule fl_scaled_down) (use k(1) assms(3) in linarith)
  then have f: "fl x = real_of_int (roundToEven y) * p"
    by (simp only: y_def p_def)
  have "fl x - x = (real_of_int (roundToEven y) - y) * p"
    by (simp only: f xy [symmetric] left_diff_distrib)
  then have "\<bar>fl x - x\<bar> = \<bar>real_of_int (roundToEven y) - y\<bar> * p"
    using p by (simp only: abs_mult abs_of_pos)
  also have "\<dots> \<le> (1 / 2) * p"
    using p by (intro mult_right_mono roundToEven_error) linarith
  also have "\<dots> \<le> (y / 2 ^ 53) * p"
  proof (rule mult_right_mono)
    have "(1 / 2 :: real) = 2 ^ 52 / 2 ^ 53" by simp
    also have "\<dots> \<le> y / 2 ^ 53" using y by (intro divide_right_mono) simp_all
    finally show "1 / 2 \<le> y / 2 ^ 53" .
    show "0 \<le> p" using p by linarith
  qed
  also have "\<dots> = x / 2 ^ 53" by (simp only: xy) simp
  finally show ?thesis .
qed

lemma fl_error_wide:
  assumes "1 / 2 ^ 1100 \<le> x" "x \<le> 2 ^ 1100"
  shows "\<bar>fl x - x\<bar> \<le> x / 2 ^ 53"
proof (cases "x < 2 ^ 53")
  case True
  have pos: "0 < x" using assms(1) by (meson less_le_trans zero_less_divide_1_iff zero_less_numeral zero_less_power)
  have "1 / 2 ^ 1100 * (2 :: real) ^ 1152 \<le> x * 2 ^ 1152"
    using assms(1) by (intro mult_right_mono) simp_all
  moreover have "1 / 2 ^ 1100 * (2 :: real) ^ 1152 = 2 ^ 52"
    by (simp add: power_diff [symmetric, of 2 1100 1152] divide_simps flip: power_add)
  ultimately have "2 ^ 52 \<le> x * 2 ^ 1152" by simp
  with pos True show ?thesis by (intro fl_error [where j = 1152]) simp_all
next
  case False
  then have a: "2 ^ 52 \<le> x" by (simp add: order_trans [of "2 ^ 52" "2 ^ 53" x])
  have "x / 2 ^ 1100 \<le> 2 ^ 1100 / 2 ^ 1100"
    using assms(2) by (intro divide_right_mono) simp_all
  then have "x / 2 ^ 1100 < 2 ^ 53" by simp
  with a show ?thesis by (intro fl_error_large [where j = 1100]) simp_all
qed

lemma rnd_zero: "rnd 0 = Finite 0"
  by (simp add: rnd_def roundToEven_def)

lemma rnd_normal:
  "1 / 2 ^ 1022 \<le> \<bar>x\<bar> \<Longrightarrow> \<bar>x\<bar> < 2 ^ 1024 - 2 ^ 970 \<Longrightarrow> rnd x = Finite (fl x)"
  by (simp add: rnd_def)

lemma rnd_mid:
  assumes "1 / 2 ^ 64 \<le> \<bar>x\<bar>" "\<bar>x\<bar> \<le> 2 ^ 64"
  shows "rnd x = Finite (fl x)"
proof -
  have "(1 :: real) / 2 ^ 1022 \<le> 1 / 2 ^ 64" by simp
  with assms(1) have a: "1 / 2 ^ 1022 \<le> \<bar>x\<bar>" by linarith
  have "(2 :: real) ^ 64 < 2 ^ 1024 - 2 ^ 970" by simp
  with assms(2) have b: "\<bar>x\<bar> < 2 ^ 1024 - 2 ^ 970" by linarith
  from a b show ?thesis by (rule rnd_normal)
qed

lemma rnd_error:
  assumes "1 / 2 ^ 1022 \<le> x" "x \<le> 2 ^ 1023"
  shows "\<exists>y. rnd x = Finite y \<and> \<bar>y - x\<bar> \<le> x / 2 ^ 53"
proof -
  have "(0 :: real) < 1 / 2 ^ 1022" by simp
  with assms(1) have pos: "0 < x" by linarith
  have "(2 :: real) ^ 1023 < 2 ^ 1024 - 2 ^ 970" by simp
  with assms(2) pos have b: "\<bar>x\<bar> < 2 ^ 1024 - 2 ^ 970" by simp
  have r: "rnd x = Finite (fl x)"
    using assms(1) pos b by (intro rnd_normal) simp_all
  have "(1 :: real) / 2 ^ 1100 \<le> 1 / 2 ^ 1022" by simp
  with assms(1) have lo: "1 / 2 ^ 1100 \<le> x" by linarith
  have "(2 :: real) ^ 1023 \<le> 2 ^ 1100" by simp
  with assms(2) have hi: "x \<le> 2 ^ 1100" by linarith
  from fl_error_wide [OF lo hi] r show ?thesis by blast
qed

lemma rnd_dyadic:
  assumes "a < 2 ^ 53" "i \<le> 1000"
  shows "rnd (real a / 2 ^ i) = Finite (real a / 2 ^ i)"
proof (cases "a = 0")
  case True
  then show ?thesis by (simp add: rnd_zero)
next
  case False
  then have a: "0 < a" by simp
  define x where "x = real a / 2 ^ i"
  have f: "fl x = x" unfolding x_def using a assms by (intro fl_dyadic) simp_all
  have a1: "1 \<le> real a" using a by simp
  have "(1 :: real) / 2 ^ 1022 \<le> 1 / 2 ^ i"
    using assms(2) by (intro divide_left_mono power_increasing) simp_all
  also have "\<dots> \<le> real a / 2 ^ i" using a1 by (intro divide_right_mono) simp_all
  finally have lo: "1 / 2 ^ 1022 \<le> x" by (simp only: x_def)
  have "(0 :: real) < 1 / 2 ^ 1022" by simp
  with lo have pos: "0 < x" by linarith
  have "real a / 2 ^ i \<le> real a / 2 ^ 0"
    by (intro divide_left_mono power_increasing) simp_all
  then have "x \<le> real a" by (simp add: x_def)
  moreover have "real a < 2 ^ 53" using assms(1) by (rule real_nat_less_pow)
  moreover have "(2 :: real) ^ 53 < 2 ^ 1024 - 2 ^ 970" by simp
  ultimately have hi: "x < 2 ^ 1024 - 2 ^ 970" by linarith
  have "rnd x = Finite (fl x)"
    using lo hi pos by (intro rnd_normal) simp_all
  then have "rnd x = Finite x" by (simp only: f)
  then show ?thesis by (simp only: x_def)
qed

lemma rnd_nat: "a < 2 ^ 53 \<Longrightarrow> rnd (real a) = Finite (real a)"
  using rnd_dyadic [of a 0] by simp

lemma addD_NaN_right [simp]: "addD x NotANumber = NotANumber"
  by (cases x) simp_all

lemma mulD_NaN_right [simp]: "mulD x NotANumber = NotANumber"
  by (cases x) simp_all

lemma divD_NaN_right [simp]: "divD x NotANumber = NotANumber"
  by (cases x) simp_all

lemma foldl_addD_NaN: "foldl (\<lambda>s i. addD s (g i)) NotANumber xs = NotANumber"
  by (induction xs) simp_all

lemma elemAtD_take: "i < n \<Longrightarrow> elemAtD (take n v) i = elemAtD v i"
  by (simp add: elemAtD_def)

lemma dotProductD_take:
  "dotProductD u (take (length u) v) = dotProductD u v"
  unfolding dotProductD_def
  by (rule foldl_cong) (simp_all add: elemAtD_take)

lemma dotProductD_short:
  assumes "length v < length u"
  shows "dotProductD u v = NotANumber"
proof -
  have split: "[0 ..< length u] = [0 ..< length v] @ length v # [Suc (length v) ..< length u]"
    using assms by (metis upt_add_eq_append upt_conv_Cons le_add_diff_inverse less_imp_le_nat zero_le)
  show ?thesis
    by (simp add: dotProductD_def split elemAtD_def foldl_addD_NaN)
qed

text \<open>The dot product of a vector with itself is the sum of its squares.\<close>

lemma dot_self_foldl:
  "n \<le> length v \<Longrightarrow>
   foldl (\<lambda>s i. addD s (mulD (v ! i) (elemAtD v i))) s0 [0 ..< n]
   = foldl (\<lambda>s x. addD s (mulD x x)) s0 (take n v)"
proof (induction n)
  case 0
  show ?case by simp
next
  case (Suc n)
  then have n: "n < length v" by simp
  then have "take (Suc n) v = take n v @ [v ! n]" by (rule take_Suc_conv_app_nth)
  with Suc n show ?case by (simp add: elemAtD_def)
qed

lemma dotProductD_self: "dotProductD v v = sumSquaresD v"
  using dot_self_foldl [of "length v" v "Finite 0"]
  by (simp add: dotProductD_def sumSquaresD_def)

text \<open>The magnitude is a finite number that is not negative, the infinity, or NaN.\<close>

lemma roundToEven_nonneg: "0 \<le> y \<Longrightarrow> 0 \<le> roundToEven y"
proof -
  assume "0 \<le> y"
  then have "0 \<le> \<lfloor>y\<rfloor>" by simp
  then show ?thesis by (simp add: roundToEven_def Let_def)
qed

lemma rnd_nonneg_cases:
  assumes "0 \<le> x"
  shows "(\<exists>y. rnd x = Finite y \<and> 0 \<le> y) \<or> rnd x = PosInf"
proof (cases "x = 0")
  case True
  then show ?thesis by (simp add: rnd_zero)
next
  case False
  with assms have pos: "0 < x" by simp
  show ?thesis
  proof (cases "\<bar>x\<bar> < 1 / 2 ^ 1022")
    case True
    define y where "y = x * 2 ^ 1074"
    have "0 \<le> y" using pos by (simp add: y_def)
    then have "0 \<le> roundToEven y" by (rule roundToEven_nonneg)
    then have "0 \<le> real_of_int (roundToEven y)" by simp
    then have n: "0 \<le> real_of_int (roundToEven y) / 2 ^ 1074"
      by (intro divide_nonneg_nonneg) simp_all
    have "rnd x = Finite (real_of_int (roundToEven y) / 2 ^ 1074)"
      using True by (simp only: rnd_def if_True y_def)
    with n show ?thesis by blast
  next
    case small: False
    show ?thesis
    proof (cases "2 ^ 1024 - 2 ^ 970 \<le> \<bar>x\<bar>")
      case True
      with small pos show ?thesis by (simp add: rnd_def)
    next
      case False
      have lo: "1 / 2 ^ 1100 \<le> x"
      proof -
        have "(1 :: real) / 2 ^ 1100 \<le> 1 / 2 ^ 1022" by simp
        with small pos show ?thesis by linarith
      qed
      have hi: "x \<le> 2 ^ 1100"
      proof -
        have "(2 :: real) ^ 1024 - 2 ^ 970 \<le> 2 ^ 1100" by simp
        with False pos show ?thesis by linarith
      qed
      have "\<bar>fl x - x\<bar> \<le> x / 2 ^ 53" by (rule fl_error_wide [OF lo hi])
      moreover have "x / 2 ^ 53 \<le> x" using pos by (simp add: field_simps)
      ultimately have "0 \<le> fl x" by linarith
      with small False show ?thesis by (simp add: rnd_def)
    qed
  qed
qed

lemma magnitudeD_cases:
  "(\<exists>m. magnitudeD v = Finite m \<and> 0 \<le> m) \<or> magnitudeD v = PosInf \<or> magnitudeD v = NotANumber"
proof (cases "sumSquaresD v")
  case (Finite a)
  show ?thesis
  proof (cases "a < 0")
    case True
    with Finite show ?thesis by (simp add: magnitudeD_def)
  next
    case False
    then have "0 \<le> sqrt a" by simp
    from rnd_nonneg_cases [OF this] Finite False show ?thesis
      by (auto simp: magnitudeD_def)
  qed
qed (simp_all add: magnitudeD_def)

lemma rel_bounds:
  fixes x y :: real
  assumes "\<bar>y - x\<bar> \<le> x / 2 ^ 53"
  shows "x * (1 - 1 / 2 ^ 53) \<le> y" "y \<le> x * (1 + 1 / 2 ^ 53)"
proof -
  have a: "x * (1 - 1 / 2 ^ 53) = x - x / 2 ^ 53" by (simp add: algebra_simps)
  have b: "x * (1 + 1 / 2 ^ 53) = x + x / 2 ^ 53" by (simp add: algebra_simps)
  from assms show "x * (1 - 1 / 2 ^ 53) \<le> y" unfolding a by linarith
  from assms show "y \<le> x * (1 + 1 / 2 ^ 53)" unfolding b by linarith
qed

lemma self_similarity_bound:
  assumes s: "sumSquaresD v = Finite s" and lo: "1 / 2 ^ 1000 \<le> s" and hi: "s \<le> 2 ^ 1000"
  shows "\<exists>r. cosineSimilarityD v v = Finite r \<and> \<bar>r - 1\<bar> \<le> 1 / 2 ^ 50"
proof -
  define al where "al = (1 :: real) - 1 / 2 ^ 53"
  define be where "be = (1 :: real) + 1 / 2 ^ 53"
  define m where "m = sqrt s"
  have al: "0 < al" "1 / 2 \<le> al" "al \<le> 1" by (simp_all add: al_def)
  have be: "1 \<le> be" "be \<le> 2" "0 < be" by (simp_all add: be_def)
  have "(0 :: real) < 1 / 2 ^ 1000" by simp
  with lo have spos: "0 < s" by linarith
  have mpos: "0 < m" using spos by (simp add: m_def)
  have mm: "m * m = s" using spos by (simp add: m_def)
  have mlo: "1 / 2 ^ 500 \<le> m"
  proof -
    have "((1 :: real) / 2 ^ 500)\<^sup>2 = 1 / 2 ^ 1000"
      by (simp add: power_divide flip: power_mult)
    with lo have "((1 :: real) / 2 ^ 500)\<^sup>2 \<le> s" by simp
    then show ?thesis unfolding m_def by (rule real_le_rsqrt)
  qed
  have mhi: "m \<le> 2 ^ 500"
  proof -
    have "((2 :: real) ^ 500)\<^sup>2 = 2 ^ 1000" by (simp flip: power_mult)
    with hi have "s \<le> ((2 :: real) ^ 500)\<^sup>2" by simp
    then show ?thesis unfolding m_def using spos by (intro real_le_lsqrt) simp_all
  qed
  have "(1 :: real) / 2 ^ 1022 \<le> 1 / 2 ^ 500" by simp
  with mlo have m1: "1 / 2 ^ 1022 \<le> m" by linarith
  have "(2 :: real) ^ 500 \<le> 2 ^ 1023" by simp
  with mhi have m2: "m \<le> 2 ^ 1023" by linarith
  from rnd_error [OF m1 m2] obtain m' where
    m': "rnd m = Finite m'" "\<bar>m' - m\<bar> \<le> m / 2 ^ 53" by blast
  have mag: "magnitudeD v = Finite m'"
    using spos by (simp add: magnitudeD_def s m'(1) flip: m_def)
  have m'lo: "m * al \<le> m'" and m'hi: "m' \<le> m * be"
    using rel_bounds [OF m'(2)] by (simp_all add: al_def be_def)
  have m'pos: "0 < m'"
  proof -
    have "0 < m * al" using mpos al(1) by simp
    with m'lo show ?thesis by linarith
  qed
  define d where "d = m' * m'"
  have dlo: "s * (al * al) \<le> d"
  proof -
    have "(m * al) * (m * al) \<le> m' * m'"
      using m'lo mpos al(1) m'pos by (intro mult_mono) simp_all
    moreover have "(m * al) * (m * al) = m * m * (al * al)" by (simp add: algebra_simps)
    ultimately show ?thesis by (simp only: mm d_def)
  qed
  have dhi: "d \<le> s * (be * be)"
  proof -
    have "m' * m' \<le> (m * be) * (m * be)"
      using m'hi m'pos by (intro mult_mono) simp_all
    moreover have "(m * be) * (m * be) = m * m * (be * be)" by (simp add: algebra_simps)
    ultimately show ?thesis by (simp only: mm d_def)
  qed
  have aa: "1 / 4 \<le> al * al"
  proof -
    have "(1 / 2) * (1 / 2) \<le> al * al" using al(2) by (intro mult_mono) simp_all
    then show ?thesis by simp
  qed
  have bb: "be * be \<le> 4"
  proof -
    have "be * be \<le> 2 * 2" using be by (intro mult_mono) simp_all
    then show ?thesis by simp
  qed
  have dpos: "0 < d" using m'pos by (simp add: d_def)
  have d1: "1 / 2 ^ 1022 \<le> d"
  proof -
    have "1 / 2 ^ 1000 * (1 / 4) \<le> s * (al * al)"
      using lo aa by (intro mult_mono) simp_all
    moreover have "(1 :: real) / 2 ^ 1022 \<le> 1 / 2 ^ 1000 * (1 / 4)" by simp
    ultimately show ?thesis using dlo by linarith
  qed
  have d2: "d \<le> 2 ^ 1023"
  proof -
    have "s * (be * be) \<le> 2 ^ 1000 * 4"
      using hi bb spos be by (intro mult_mono) simp_all
    moreover have "(2 :: real) ^ 1000 * 4 \<le> 2 ^ 1023" by simp
    ultimately show ?thesis using dhi by linarith
  qed
  from rnd_error [OF d1 d2] obtain d' where
    d': "rnd d = Finite d'" "\<bar>d' - d\<bar> \<le> d / 2 ^ 53" by blast
  have d'lo: "d * al \<le> d'" and d'hi: "d' \<le> d * be"
    using rel_bounds [OF d'(2)] by (simp_all add: al_def be_def)
  have d'pos: "0 < d'"
  proof -
    have "0 < d * al" using dpos al(1) by simp
    with d'lo show ?thesis by linarith
  qed
  have denom: "mulD (magnitudeD v) (magnitudeD v) = Finite d'"
    by (simp add: mag d'(1) flip: d_def)
  have a3: "s * (al * al * al) \<le> d'"
  proof -
    have "s * (al * al) * al \<le> d * al"
      using dlo al(1) by (intro mult_right_mono) simp_all
    with d'lo show ?thesis by (simp add: mult.assoc)
  qed
  have b3: "d' \<le> s * (be * be * be)"
  proof -
    have "d * be \<le> s * (be * be) * be"
      using dhi be(3) by (intro mult_right_mono) simp_all
    with d'hi show ?thesis by (simp add: mult.assoc)
  qed
  define q where "q = s / d'"
  have qpos: "0 < q" using spos d'pos by (simp add: q_def)
  have a3pos: "0 < al * al * al" using al(1) by simp
  have b3pos: "0 < be * be * be" using be(3) by simp
  have qhi: "q \<le> 1 / (al * al * al)"
  proof -
    have "s / d' \<le> s / (s * (al * al * al))"
      using a3 spos a3pos d'pos by (intro divide_left_mono) simp_all
    also have "\<dots> = 1 / (al * al * al)" using spos by simp
    finally show ?thesis by (simp only: q_def)
  qed
  have qlo: "1 / (be * be * be) \<le> q"
  proof -
    have "s / (s * (be * be * be)) \<le> s / d'"
      using b3 spos d'pos b3pos by (intro divide_left_mono) simp_all
    moreover have "s / (s * (be * be * be)) = 1 / (be * be * be)" using spos by simp
    ultimately show ?thesis by (simp only: q_def)
  qed
  have n1: "(1 :: real) / 2 \<le> 1 / (be * be * be)" by (simp add: be_def)
  have n2: "1 / (al * al * al) \<le> (2 :: real)" by (simp add: al_def)
  have q1: "1 / 2 ^ 1022 \<le> q"
  proof -
    have "(1 :: real) / 2 ^ 1022 \<le> 1 / 2" by simp
    with n1 qlo show ?thesis by linarith
  qed
  have q2: "q \<le> 2 ^ 1023"
  proof -
    have "(2 :: real) \<le> 2 ^ 1023" by simp
    with n2 qhi show ?thesis by linarith
  qed
  from rnd_error [OF q1 q2] obtain r where
    r: "rnd q = Finite r" "\<bar>r - q\<bar> \<le> q / 2 ^ 53" by blast
  have rlo: "q * al \<le> r" and rhi: "r \<le> q * be"
    using rel_bounds [OF r(2)] by (simp_all add: al_def be_def)
  have dot: "dotProductD v v = Finite s"
    by (simp only: dotProductD_self s)
  have res: "cosineSimilarityD v v = Finite r"
    using d'pos by (simp add: cosineSimilarityD_def denom dot r(1) flip: q_def)
  have n3: "1 - 1 / 2 ^ 50 \<le> 1 / (be * be * be) * al" by (simp add: al_def be_def)
  have n4: "1 / (al * al * al) * be \<le> 1 + 1 / 2 ^ 50" by (simp add: al_def be_def)
  have "1 / (be * be * be) * al \<le> q * al"
    using qlo al(1) by (intro mult_right_mono) simp_all
  with n3 rlo have lower: "1 - 1 / 2 ^ 50 \<le> r" by linarith
  have "q * be \<le> 1 / (al * al * al) * be"
    using qhi be(3) by (intro mult_right_mono) simp_all
  with n4 rhi have upper: "r \<le> 1 + 1 / 2 ^ 50" by linarith
  from lower upper have "\<bar>r - 1\<bar> \<le> 1 / 2 ^ 50" by linarith
  with res show ?thesis by blast
qed

section \<open>Vectors of doubles\<close>

text \<open>Degenerate inputs.\<close>

lemma semanticSimilarityD_empty:
  "cleanAndTokenize L a = [] \<or> cleanAndTokenize L b = [] \<Longrightarrow> semanticSimilarityD L a b = Finite 0"
  by (auto simp: semanticSimilarityD_def Let_def)

lemma sumSquaresD_zeros:
  "list_all (\<lambda>x. x = Finite 0) v \<Longrightarrow> sumSquaresD v = Finite 0"
proof -
  have "list_all (\<lambda>x. x = Finite 0) v \<Longrightarrow>
        foldl (\<lambda>s x. addD s (mulD x x)) (Finite 0) v = Finite 0"
    by (induction v) (simp_all add: rnd_zero)
  then show "list_all (\<lambda>x. x = Finite 0) v \<Longrightarrow> sumSquaresD v = Finite 0"
    by (simp add: sumSquaresD_def)
qed

lemma magnitudeD_zeros:
  "list_all (\<lambda>x. x = Finite 0) v \<Longrightarrow> magnitudeD v = Finite 0"
  by (simp add: magnitudeD_def sumSquaresD_zeros rnd_zero)

lemma cosineSimilarityD_zero_finite:
  assumes "magnitudeD u = Finite 0 \<and> magnitudeD v = Finite m
           \<or> magnitudeD u = Finite m \<and> magnitudeD v = Finite 0"
  shows "cosineSimilarityD u v = Finite 0"
  using assms by (auto simp: cosineSimilarityD_def Let_def rnd_zero)

lemma cosineSimilarityD_zero_other:
  assumes "magnitudeD u = Finite 0 \<and> (magnitudeD v = PosInf \<or> magnitudeD v = NotANumber)
           \<or> (magnitudeD u = PosInf \<or> magnitudeD u = NotANumber) \<and> magnitudeD v = Finite 0"
  shows "cosineSimilarityD u v = NotANumber"
  using assms by (auto simp: cosineSimilarityD_def Let_def)

text \<open>The square of \<open>2^600\<close> overflows; the square of \<open>2^-600\<close> underflows to zero.\<close>

lemma rnd_overflow: "rnd (2 ^ 600 * 2 ^ 600) = PosInf"
proof -
  have e: "(2 :: real) ^ 600 * 2 ^ 600 = 2 ^ 1200" by (simp flip: power_add)
  have a: "\<not> \<bar>(2 :: real) ^ 1200\<bar> < 1 / 2 ^ 1022" by simp
  have b: "2 ^ 1024 - 2 ^ 970 \<le> \<bar>(2 :: real) ^ 1200\<bar>" by simp
  have c: "(0 :: real) < 2 ^ 1200" by simp
  show ?thesis unfolding e rnd_def by (simp only: a b c if_True if_False)
qed

lemma rnd_underflow: "rnd (1 / 2 ^ 600 * (1 / 2 ^ 600)) = Finite 0"
proof -
  have e: "(1 :: real) / 2 ^ 600 * (1 / 2 ^ 600) = 1 / 2 ^ 1200"
    by (simp flip: power_add)
  have a: "\<bar>(1 :: real) / 2 ^ 1200\<bar> < 1 / 2 ^ 1022" by simp
  have "(1 :: real) / 2 ^ 1200 * 2 ^ 1074 = 1 / 2 ^ 126" by simp
  moreover have "roundToEven (1 / 2 ^ 126) = 0"
    by (simp add: roundToEven_def)
  ultimately have r: "roundToEven (1 / 2 ^ 1200 * 2 ^ 1074) = 0" by simp
  show ?thesis unfolding e rnd_def by (simp only: a r if_True) simp
qed

lemma magnitudeD_zero: "magnitudeD [Finite 0] = Finite 0"
  by (simp add: magnitudeD_zeros)

lemma magnitudeD_huge: "magnitudeD [Finite (2 ^ 600)] = PosInf"
  by (simp only: magnitudeD_def sumSquaresD_def foldl.simps mulD.simps rnd_overflow addD.simps sqrtD.simps)

lemma magnitudeD_tiny: "magnitudeD [Finite (1 / 2 ^ 600)] = Finite 0"
proof -
  have "sumSquaresD [Finite (1 / 2 ^ 600)] = Finite 0"
    by (simp only: sumSquaresD_def foldl.simps mulD.simps rnd_underflow addD.simps) (simp add: rnd_zero)
  then show ?thesis by (simp add: magnitudeD_def rnd_zero)
qed

lemma cosineSimilarityD_zero_huge: "cosineSimilarityD [Finite 0] [Finite (2 ^ 600)] = NotANumber"
  by (rule cosineSimilarityD_zero_other) (intro disjI1 conjI magnitudeD_zero magnitudeD_huge)

lemma cosineSimilarityD_huge: "cosineSimilarityD [Finite (2 ^ 600)] [Finite (2 ^ 600)] = NotANumber"
proof -
  have "sumSquaresD [Finite (2 ^ 600)] = PosInf"
    by (simp only: sumSquaresD_def foldl.simps mulD.simps rnd_overflow addD.simps)
  then have "dotProductD [Finite (2 ^ 600)] [Finite (2 ^ 600)] = PosInf"
    by (simp only: dotProductD_self)
  then show ?thesis
    unfolding cosineSimilarityD_def Let_def magnitudeD_huge by (simp add: signedInf_def)
qed

lemma cosineSimilarityD_tiny:
  "cosineSimilarityD [Finite (1 / 2 ^ 600)] [Finite (1 / 2 ^ 600)] = Finite 0"
  by (rule cosineSimilarityD_zero_finite [where m = 0]) (intro disjI1 conjI magnitudeD_tiny)

text \<open>Small vectors.\<close>

lemma rnd_numeral: "numeral k < (2 :: nat) ^ 53 \<Longrightarrow> rnd (numeral k) = Finite (numeral k)"
  using rnd_nat [of "numeral k"] by simp

lemma rnd_one: "rnd 1 = Finite 1"
  using rnd_nat [of 1] by simp

lemma rnd_half: "rnd (1 / 2) = Finite (1 / 2)"
  using rnd_dyadic [of 1 1] by simp

lemma sqrt_4: "sqrt 4 = 2"
  by (rule real_sqrt_unique) simp_all

lemma magnitudeD_ones4: "magnitudeD [Finite 1, Finite 1, Finite 1, Finite 1] = Finite 2"
  by (simp add: magnitudeD_def sumSquaresD_def rnd_one rnd_numeral sqrt_4)

lemma magnitudeD_one: "magnitudeD [Finite 1] = Finite 1"
  by (simp add: magnitudeD_def sumSquaresD_def rnd_one)

lemma cosineSimilarityD_1_1111:
  "cosineSimilarityD [Finite 1] [Finite 1, Finite 1, Finite 1, Finite 1] = Finite (1 / 2)"
  by (simp add: cosineSimilarityD_def magnitudeD_one magnitudeD_ones4 dotProductD_def elemAtD_def
      rnd_one rnd_numeral rnd_half)

lemma cosineSimilarityD_1111_1:
  "cosineSimilarityD [Finite 1, Finite 1, Finite 1, Finite 1] [Finite 1] = NotANumber"
  by (simp add: cosineSimilarityD_def magnitudeD_one magnitudeD_ones4 dotProductD_short
      rnd_one rnd_numeral)

text \<open>The vector \<open>[1, 1]\<close>.\<close>

lemma rnd_sqrt2: "rnd (sqrt 2) = Finite (6369051672525773 / 2 ^ 52)"
proof -
  have a: "1 \<le> sqrt 2" by simp
  have b: "sqrt 2 \<le> 2" by (rule real_le_lsqrt) simp_all
  have "(1 :: real) / 2 ^ 64 \<le> 1" by simp
  with a have lo: "1 / 2 ^ 64 \<le> \<bar>sqrt 2\<bar>" by linarith
  have "(2 :: real) \<le> 2 ^ 64" by simp
  with a b have hi: "\<bar>sqrt 2\<bar> \<le> 2 ^ 64" by linarith
  from lo hi have "rnd (sqrt 2) = Finite (fl (sqrt 2))"
    by (rule rnd_mid)
  then show ?thesis by (simp only: fl_sqrt2)
qed

lemma rnd_square:
  "rnd (6369051672525773 / 2 ^ 52 * (6369051672525773 / 2 ^ 52)) = Finite (4503599627370497 / 2 ^ 51)"
proof -
  have "rnd (6369051672525773 / 2 ^ 52 * (6369051672525773 / 2 ^ 52))
      = Finite (fl (6369051672525773 / 2 ^ 52 * (6369051672525773 / 2 ^ 52)))"
    by (rule rnd_mid) simp_all
  then show ?thesis by (simp only: fl_square)
qed

lemma rnd_quotient:
  "rnd (2 / (4503599627370497 / 2 ^ 51)) = Finite (9007199254740990 / 2 ^ 53)"
proof -
  have "rnd (2 / (4503599627370497 / 2 ^ 51)) = Finite (fl (2 / (4503599627370497 / 2 ^ 51)))"
    by (rule rnd_mid) simp_all
  then show ?thesis by (simp only: fl_quotient)
qed

lemma sumSquaresD_1_1: "sumSquaresD [Finite 1, Finite 1] = Finite 2"
  by (simp add: sumSquaresD_def rnd_one rnd_numeral)

lemma magnitudeD_1_1: "magnitudeD [Finite 1, Finite 1] = Finite (6369051672525773 / 2 ^ 52)"
  by (simp add: magnitudeD_def sumSquaresD_1_1 rnd_sqrt2)

lemma cosineSimilarityD_1_1:
  "cosineSimilarityD [Finite 1, Finite 1] [Finite 1, Finite 1] = Finite (1 - 1 / 2 ^ 52)"
proof -
  have d: "mulD (magnitudeD [Finite 1, Finite 1]) (magnitudeD [Finite 1, Finite 1])
           = Finite (4503599627370497 / 2 ^ 51)"
    by (simp only: magnitudeD_1_1 mulD.simps rnd_square)
  have n: "dotProductD [Finite 1, Finite 1] [Finite 1, Finite 1] = Finite 2"
    by (simp only: dotProductD_self sumSquaresD_1_1)
  have "cosineSimilarityD [Finite 1, Finite 1] [Finite 1, Finite 1]
        = rnd (2 / (4503599627370497 / 2 ^ 51))"
    unfolding cosineSimilarityD_def Let_def d n by simp
  then show ?thesis by (simp only: rnd_quotient) simp
qed

lemma sqrt_25: "sqrt 25 = 5"
  by (rule real_sqrt_unique) simp_all

lemma magnitudeD_3_4: "magnitudeD [Finite 3, Finite 4] = Finite 5"
  by (simp add: magnitudeD_def sumSquaresD_def rnd_numeral sqrt_25)

lemma dotProductD_one_one: "dotProductD [Finite 1] [Finite 1] = Finite 1"
  by (simp add: dotProductD_def elemAtD_def rnd_one)

section \<open>The score triple\<close>

text \<open>
  Claim C1 says that for every resume text and every job, \<open>finalMatchScore\<close> returns
  three integers between 0 and 100 with \<open>final = round (0.4 * kwScore + 0.6 * semScore)\<close>.
  Lemma \<open>finalMatchScore_plain\<close> above proves this when no token of the resume or of
  the description is the name of a property of \<^verbatim>\<open>Object.prototype\<close>. It fails otherwise:
  the objects \<^verbatim>\<open>tf\<close>, \<^verbatim>\<open>df\<close> and \<^verbatim>\<open>idf\<close> inherit \<^verbatim>\<open>constructor\<close>, so the count of the
  token \<^verbatim>\<open>constructor\<close> is no number, the vectors hold NaN, and the semantic score and
  the final score are NaN. The source documents both scores as "0-100".
\<close>

theorem finalMatchScore_constructor:
  "finalMatchScore exampleLib (Some ''concept artist'')
     (jobWith ''7'' ''artist for a constructor game'' [''artist'', ''game''])
   = \<lparr> final = None, kwScore = Some 50, semScore = None \<rparr>"
  by (simp add: finalMatchScore_def jobWith_def semanticSimilarity_constructor
      keywordMatchPercentage_def matchCount_eq tokens_concept_artist Let_def)

section \<open>The ranked list\<close>

text \<open>
  Claim C2 says that for every resume text and every sequence of jobs the ranking has one
  entry per job, in descending order of the final score, equal scores in the order of
  the input. Lemma \<open>matches_numeric\<close> above proves this whenever every final score is a
  number, and lemma \<open>matches_plain\<close> whenever no token names a property of
  \<^verbatim>\<open>Object.prototype\<close>. It fails when a score is NaN (claim C1): here the scores are 0, NaN and 40,
  the comparator answers NaN, which counts as 0, for every pair with the second job, so
  it is not a consistent comparator, and the order is left to the implementation.
\<close>

theorem matches_constructor:
  "map (\<lambda>j. final (finalMatchScore exampleLib (Some ''concept artist'') j))
     [jobWith ''1'' [] [''zebra''],
      jobWith ''2'' ''artist for a constructor game'' [''artist'', ''game''],
      jobWith ''3'' [] [''artist'']] = [Some 0, None, Some 40]
   \<and> matches exampleLib (Some ''concept artist'')
     [jobWith ''1'' [] [''zebra''],
      jobWith ''2'' ''artist for a constructor game'' [''artist'', ''game''],
      jobWith ''3'' [] [''artist'']] = None"
  by (simp add: final_empty_description final_constructor matches_def sortDescBy_def
      score_of_entry)

section \<open>Keyword match percentage\<close>

text \<open>
  Claim C3 says that for every resume text and every non-empty keyword list,
  \<open>keywordMatchPercentage\<close> is \<open>round (100 * matchedCount / length)\<close>. The source
  computes \<^verbatim>\<open>(matches / length) * 100\<close> in doubles: the quotient is rounded, then the
  product. With 23 of 40 keywords matched the product is \<open>57.49999999999999\<close>, and the
  result is 57 where the claim has \<open>round 57.5 = 58\<close>.
\<close>

theorem keywordMatchPercentage_double_counterexample:
  "keywordMatchPercentageD exampleLib (Some ''artist'')
     (Some (replicate 23 ''artist'' @ replicate 17 ''zebra'')) = 57
   \<and> \<lfloor>100 * real (length (filter (\<lambda>k. k \<in> set (cleanAndTokenize exampleLib (Some ''artist'')))
                               (replicate 23 ''artist'' @ replicate 17 ''zebra'')))
        / real (length (replicate 23 ''artist'' @ replicate 17 ''zebra'')) + 1 / 2\<rfloor> = (58 :: int)"
  by (simp add: keywordMatchPercentageD_23_40 tokens_artist)

text \<open>
  Claim C3, amended. For every resume text and every non-empty keyword list,
  \<open>keywordMatchPercentage\<close> is \<open>round (100 * matchedCount / length)\<close> in exact
  arithmetic, where \<open>matchedCount\<close> is the number of keywords of the list that occur in
  the set of the tokens of the resume text and \<open>round\<close> takes a tie upwards; in the
  double arithmetic of the source it is the same number when the list has at most 25
  keywords, the most that a stored job carries.
\<close>

theorem keywordMatchPercentage_formula:
  "(ks \<noteq> [] \<longrightarrow>
      keywordMatchPercentage L text (Some ks) =
        Some \<lfloor>100 * real (length (filter (\<lambda>k. k \<in> set (cleanAndTokenize L text)) ks))
                 / real (length ks) + 1 / 2\<rfloor>)
   \<and> (ks \<noteq> [] \<and> length ks \<le> 25 \<longrightarrow>
      keywordMatchPercentageD L text (Some ks) =
        \<lfloor>100 * real (length (filter (\<lambda>k. k \<in> set (cleanAndTokenize L text)) ks))
            / real (length ks) + 1 / 2\<rfloor>)"
proof (intro conjI impI)
  assume "ks \<noteq> []"
  then show "keywordMatchPercentage L text (Some ks) =
        Some \<lfloor>100 * real (length (filter (\<lambda>k. k \<in> set (cleanAndTokenize L text)) ks))
                 / real (length ks) + 1 / 2\<rfloor>"
    by (simp add: keywordMatchPercentage_def matchCount_eq Let_def mult.commute)
next
  assume "ks \<noteq> [] \<and> length ks \<le> 25"
  then show "keywordMatchPercentageD L text (Some ks) =
        \<lfloor>100 * real (length (filter (\<lambda>k. k \<in> set (cleanAndTokenize L text)) ks))
            / real (length ks) + 1 / 2\<rfloor>"
    by (intro keywordMatchPercentageD_short) simp_all
qed

theorem keywordMatchPercentage_formula_witness:
  "[''concept'', ''artist'', ''character'', ''illustration'', ''digital'', ''painting''] \<noteq> []
   \<and> length [''concept'', ''artist'', ''character'', ''illustration'', ''digital'', ''painting''] \<le> 25
   \<and> keywordMatchPercentage exampleLib
     (Some ''I am a concept artist specializing in stylized character illustration and digital painting'')
     (Some [''concept'', ''artist'', ''character'', ''illustration'', ''digital'', ''painting''])
   = Some 100
   \<and> keywordMatchPercentageD exampleLib
     (Some ''I am a concept artist specializing in stylized character illustration and digital painting'')
     (Some [''concept'', ''artist'', ''character'', ''illustration'', ''digital'', ''painting''])
   = 100"
  using keywordMatchPercentage_formula
    [of "[''concept'', ''artist'', ''character'', ''illustration'', ''digital'', ''painting'']"
        exampleLib
        "Some ''I am a concept artist specializing in stylized character illustration and digital painting''"]
  by (simp add: tokens_resume_example)

section \<open>What the tokenizer does to a text\<close>

text \<open>
  Claim C4 says that the tokenizer collapses runs of whitespace, strips every character
  outside the class, lowercases, splits on whitespace and drops short tokens and stop
  words. The source replaces a character outside the class by a space; it does not
  delete it. On \<^verbatim>\<open>art,design\<close> the algorithm as claimed has the one token
  \<^verbatim>\<open>artdesign\<close>, the source the two tokens \<^verbatim>\<open>art\<close> and \<^verbatim>\<open>design\<close>.
\<close>

theorem cleanAndTokenize_strip_counterexample:
  "cleanAndTokenize exampleLib (Some ''art,design'') = [''art'', ''design'']
   \<and> tokenizeSpec (stopWords exampleLib) (Some ''art,design'') = [''artdesign'']
   \<and> cleanAndTokenize exampleLib (Some ''art,design'')
       \<noteq> tokenizeSpec (stopWords exampleLib) (Some ''art,design'')"
  by (simp add: tokens_art_design tokenizeSpec_art_design)

text \<open>
  Claim C4, amended. Null and the empty text give no token. On any other text the
  source replaces every character that is not an ASCII letter, a digit, a space or one
  of \<^verbatim>\<open>#+-_.\<close> by a space (its first pattern, \<^verbatim>\<open>/[]+/g\<close>, has an empty class and changes
  nothing), lowercases, hands the text to the tokenizer of the library and drops the
  tokens of length at most 2 and the stop words. With a tokenizer that splits on
  whitespace the result is the same as if runs of whitespace were collapsed first.
\<close>

theorem cleanAndTokenize_blanks:
  "cleanAndTokenize L None = [] \<and> cleanAndTokenize L (Some []) = []
   \<and> cleanAndTokenize L (Some s) =
       (if s = [] then []
        else filter (\<lambda>t. 2 < length t \<and> t \<notin> set (stopWords L))
               (tokenize L (toLowerCase (map blankOther s))))
   \<and> (tokenize L = splitWhitespace \<longrightarrow>
        cleanAndTokenize L text = tokenizeBlanking (stopWords L) text)"
  using cleanAndTokenize_whitespace [of L "text"]
  by (simp add: cleanAndTokenize_Some) (simp add: cleanAndTokenize_def)

theorem cleanAndTokenize_blanks_witness:
  "tokenize exampleLib = splitWhitespace
   \<and> cleanAndTokenize exampleLib (Some ''Art,design  and C++'') = [''art'', ''design'', ''c++'']"
  using cleanAndTokenize_blanks [of exampleLib "[]" "Some ''Art,design  and C++''"]
  by (simp add: exampleLib_def stopWords_def tokenizeBlanking_example)

section \<open>The ranking of the extracted keywords\<close>

text \<open>
  Claim C5 says that \<open>extractKeywords\<close> sorts the distinct tokens by descending
  accumulated weight (4 per occurrence for the domain vocabulary, 1 otherwise), ties in
  the order of first occurrence, and returns the first \<open>limit\<close>. The ties follow the order
  of \<^verbatim>\<open>Object.entries\<close> instead, which puts the tokens that are array indices first, in
  ascending numeric order: on \<^verbatim>\<open>zebra 200 100\<close> the source returns 100, 200, zebra.
\<close>

theorem extractKeywords_tie_order_counterexample:
  "extractKeywords exampleLib (Some ''zebra 200 100'') 3 = Some [''100'', ''200'', ''zebra'']
   \<and> extractKeywordsSpec exampleLib (Some ''zebra 200 100'') 3 = [''zebra'', ''200'', ''100'']"
  using extractKeywords_plain [of exampleLib "Some ''zebra 200 100''" 3]
  by (simp add: tokens_zebra plain_zebra firstSeen_zebra propertyOrder_zebra
      extractKeywordsSpec_def rankByWeight_def weights_zebra)

text \<open>
  Claim C5, amended. For a text none of whose tokens names a property of
  \<^verbatim>\<open>Object.prototype\<close>, \<open>extractKeywords\<close> returns the first \<open>limit\<close> distinct tokens sorted
  by descending accumulated weight, ties in the order of the keys of the object: the
  tokens that are array indices in ascending numeric order, then the others in the order
  of first occurrence. When no token is an array index this is the order of the claim;
  on the text of the example \<^verbatim>\<open>design\<close> (weight 16) comes first.
\<close>

theorem extractKeywords_ranking:
  "(plainTokens (cleanAndTokenize L text) \<longrightarrow>
      extractKeywords L text limit =
        Some (rankByWeight (cleanAndTokenize L text)
                (propertyOrder (firstSeen (cleanAndTokenize L text))) limit))
   \<and> (plainTokens (cleanAndTokenize L text) \<and> noArrayIndex (cleanAndTokenize L text) \<longrightarrow>
      extractKeywords L text limit = Some (extractKeywordsSpec L text limit))"
  by (simp add: extractKeywords_plain extractKeywordsSpec_def Let_def
      propertyOrder_noArrayIndex noArrayIndex_firstSeen)

theorem extractKeywords_ranking_witness:
  "plainTokens (cleanAndTokenize exampleLib
     (Some ''concept concept artist artist artist design design design design''))
   \<and> noArrayIndex (cleanAndTokenize exampleLib
     (Some ''concept concept artist artist artist design design design design''))
   \<and> extractKeywords exampleLib
     (Some ''concept concept artist artist artist design design design design'') 2
     = Some [''design'', ''artist'']"
proof -
  let ?text = "Some ''concept concept artist artist artist design design design design''"
  have p: "plainTokens (cleanAndTokenize exampleLib ?text)"
    by (simp only: tokens_design_example plain_design_example)
  have n: "noArrayIndex (cleanAndTokenize exampleLib ?text)"
    by (simp only: tokens_design_example noArrayIndex_design_example)
  from extractKeywords_ranking [of exampleLib ?text 2] p n
  have "extractKeywords exampleLib ?text 2 = Some (extractKeywordsSpec exampleLib ?text 2)"
    by blast
  with p n show ?thesis
    by (simp only: spec_design_example simp_thms)
qed

section \<open>The TF-IDF vectors of a pair of documents\<close>

text \<open>
  Claim C6 says that in each pairwise computation the vocabulary is the distinct tokens
  of the two documents in first-seen order, that the IDF of each term is
  \<open>ln ((N + 1) / (df + 1)) + 1\<close> with \<open>N = 2\<close>, a positive number, and that each vector
  entry is the count of the term in the document times its IDF. Lemma
  \<open>tfidf_pair_plain\<close> above proves all of it for documents none of whose tokens is the
  name of a property of \<^verbatim>\<open>Object.prototype\<close>. For the token \<^verbatim>\<open>constructor\<close> it fails:
  its IDF is NaN, and so is its entry in the vector of a document, also of one that
  does not contain it.
\<close>

theorem tfidf_constructor:
  "getProp (computeIdf [[''constructor'', ''artist''], [''artist'']]) ''constructor'' = Val NaN
   \<and> tfidfVector [''artist''] (computeIdf [[''constructor'', ''artist''], [''artist'']])
        (setOf ([''constructor'', ''artist''] @ [''artist''])) = [NaN, Num 1]"
proof -
  have a: "getProp (computeIdf [[''constructor'', ''artist''], [''artist'']]) ''constructor'' = Val NaN"
    by (simp add: getProp_computeIdf docFreq_inherited constructor_inherited idfValue_Junk)
  have v: "setOf ([''constructor'', ''artist''] @ [''artist'']) = [''constructor'', ''artist'']"
    by (simp add: setOf_def)
  have e: "jmul (toNumber (orZero (getProp (buildTermFreq [''artist'']) ''artist'')))
             (toNumber (orZero (getProp (computeIdf [[''constructor'', ''artist''], [''artist'']]) ''artist'')))
           = Num 1"
    using tfidf_entry_plain [OF artist_plain, of "[''constructor'', ''artist'']" "[''artist'']" "[''artist'']"]
    by (simp add: tfidfOf_def idfOf_def docCount_def)
  show ?thesis
    by (simp only: a v) (simp add: tfidfVector_def Let_def e tfidf_entry_inherited constructor_inherited)
qed

section \<open>Degenerate inputs\<close>

text \<open>
  Claim C7 says that \<open>cosineSimilarity\<close> returns 0, not NaN, when either vector has
  magnitude zero. The test of the source is \<^verbatim>\<open>denom === 0\<close> on the product of the two
  magnitudes, and zero times infinity is NaN. For \<open>[0]\<close> and \<open>[2^600]\<close> the square of
  \<open>2^600\<close> overflows, the second magnitude is infinite, the product is NaN, the test
  fails, and the result is \<open>0 / NaN\<close>, which is NaN.
\<close>

theorem cosineSimilarity_zero_magnitude_counterexample:
  "magnitudeD [Finite 0] = Finite 0
   \<and> cosineSimilarityD [Finite 0] [Finite (2 ^ 600)] = NotANumber
   \<and> cosineSimilarityD [Finite 0] [Finite (2 ^ 600)] \<noteq> Finite 0"
  by (simp only: magnitudeD_zero cosineSimilarityD_zero_huge) simp

text \<open>
  Claim C7, amended. \<open>semanticSimilarity\<close> is 0 when either text has no token, and
  \<open>keywordMatchPercentage\<close> is 0 when the keyword list is missing or empty. The zero
  vector has magnitude zero. When either vector has magnitude zero, \<open>cosineSimilarity\<close>
  is 0 if both magnitudes are finite numbers, and NaN if the other magnitude is
  infinite or NaN.
\<close>

theorem degenerate_inputs_give_zero:
  "(cleanAndTokenize L a = [] \<or> cleanAndTokenize L b = [] \<longrightarrow> semanticSimilarityD L a b = Finite 0)
   \<and> keywordMatchPercentageD L text None = 0
   \<and> keywordMatchPercentageD L text (Some []) = 0
   \<and> (list_all (\<lambda>x. x = Finite 0) u \<longrightarrow> magnitudeD u = Finite 0)
   \<and> (magnitudeD u = Finite 0 \<or> magnitudeD v = Finite 0 \<longrightarrow>
        cosineSimilarityD u v =
          (if isFinite (magnitudeD u) \<and> isFinite (magnitudeD v) then Finite 0 else NotANumber))"
proof (intro conjI impI)
  assume "cleanAndTokenize L a = [] \<or> cleanAndTokenize L b = []"
  then show "semanticSimilarityD L a b = Finite 0" by (rule semanticSimilarityD_empty)
next
  show "keywordMatchPercentageD L text None = 0"
    by (simp add: keywordMatchPercentageD_def)
next
  show "keywordMatchPercentageD L text (Some []) = 0"
    by (simp add: keywordMatchPercentageD_def)
next
  assume "list_all (\<lambda>x. x = Finite 0) u"
  then show "magnitudeD u = Finite 0" by (rule magnitudeD_zeros)
next
  assume z: "magnitudeD u = Finite 0 \<or> magnitudeD v = Finite 0"
  show "cosineSimilarityD u v =
          (if isFinite (magnitudeD u) \<and> isFinite (magnitudeD v) then Finite 0 else NotANumber)"
  proof (cases "isFinite (magnitudeD u) \<and> isFinite (magnitudeD v)")
    case True
    then obtain p q where "magnitudeD u = Finite p" "magnitudeD v = Finite q"
      by (cases "magnitudeD u"; cases "magnitudeD v") simp_all
    with z have "cosineSimilarityD u v = Finite 0"
      by (auto intro: cosineSimilarityD_zero_finite)
    with True show ?thesis by simp
  next
    case False
    with z magnitudeD_cases [of u] magnitudeD_cases [of v]
    have "magnitudeD u = Finite 0 \<and> (magnitudeD v = PosInf \<or> magnitudeD v = NotANumber)
           \<or> (magnitudeD u = PosInf \<or> magnitudeD u = NotANumber) \<and> magnitudeD v = Finite 0"
      by auto
    then have "cosineSimilarityD u v = NotANumber" by (rule cosineSimilarityD_zero_other)
    with False show ?thesis by simp
  qed
qed

theorem degenerate_inputs_give_zero_witness:
  "cleanAndTokenize exampleLib (Some []) = []
   \<and> semanticSimilarityD exampleLib (Some []) (Some ''concept artist'') = Finite 0
   \<and> keywordMatchPercentageD exampleLib (Some ''concept artist'') (Some []) = 0
   \<and> list_all (\<lambda>x. x = Finite 0) [Finite 0, Finite 0]
   \<and> magnitudeD [Finite 0, Finite 0] = Finite 0
   \<and> magnitudeD [Finite 3, Finite 4] = Finite 5
   \<and> cosineSimilarityD [Finite 0, Finite 0] [Finite 3, Finite 4] = Finite 0"
proof -
  have e: "cleanAndTokenize exampleLib (Some []) = []"
    by (simp add: cleanAndTokenize_def)
  have m: "magnitudeD [Finite 3, Finite 4] = Finite 5"
    by (rule magnitudeD_3_4)
  from e m degenerate_inputs_give_zero
    [of exampleLib "Some []" "Some ''concept artist''" "Some ''concept artist''"
        "[Finite 0, Finite 0]" "[Finite 3, Finite 4]"]
  show ?thesis by simp
qed

section \<open>Vectors of unequal length\<close>

text \<open>
  Claim C8 says that \<open>cosineSimilarity\<close>, called with two vectors of unequal length,
  fails with an assertion instead of truncating. The source has no such check. At the
  vectors \<open>[1]\<close> and \<open>[1, 1, 1, 1]\<close> the call returns \<open>1 / 2\<close>: the dot product stops
  at the length of the first vector, and the magnitude of the second is 2.
\<close>

theorem cosineSimilarity_no_assertion_counterexample:
  "length [Finite 1] \<noteq> length [Finite 1, Finite 1, Finite 1, Finite 1]
   \<and> cosineSimilarityCallD [Finite 1] [Finite 1, Finite 1, Finite 1, Finite 1] \<noteq> Throws
   \<and> cosineSimilarityCallD [Finite 1] [Finite 1, Finite 1, Finite 1, Finite 1]
       = Returns (Finite (1 / 2))"
  by (simp add: cosineSimilarityCallD_def cosineSimilarityD_1_1111)

text \<open>
  Claim C8, amended. \<open>cosineSimilarity\<close> checks no length and always returns. When the
  second vector is the longer one, its entries beyond the length of the first are left
  out of the dot product but count in its magnitude. When it is the shorter one, the
  missing entries are \<^verbatim>\<open>undefined\<close> and the dot product is NaN: the result is 0 if the
  product of the two magnitudes is 0, and NaN otherwise.
\<close>

theorem cosineSimilarity_unequal_lengths:
  "(length u \<le> length v \<longrightarrow>
      cosineSimilarityCallD u v =
        Returns (if mulD (magnitudeD u) (magnitudeD v) = Finite 0 then Finite 0
                 else divD (dotProductD u (take (length u) v))
                           (mulD (magnitudeD u) (magnitudeD v))))
   \<and> (length v < length u \<longrightarrow>
      cosineSimilarityCallD u v =
        Returns (if mulD (magnitudeD u) (magnitudeD v) = Finite 0 then Finite 0
                 else NotANumber))"
  by (simp add: cosineSimilarityCallD_def cosineSimilarityD_def Let_def dotProductD_take
      dotProductD_short)

theorem cosineSimilarity_unequal_lengths_witness:
  "length [Finite 1] \<le> length [Finite 1, Finite 1, Finite 1, Finite 1]
   \<and> cosineSimilarityCallD [Finite 1] [Finite 1, Finite 1, Finite 1, Finite 1]
       = Returns (Finite (1 / 2))
   \<and> length [Finite 1] < length [Finite 1, Finite 1, Finite 1, Finite 1]
   \<and> cosineSimilarityCallD [Finite 1, Finite 1, Finite 1, Finite 1] [Finite 1]
       = Returns NotANumber"
  using cosineSimilarity_unequal_lengths [of "[Finite 1]" "[Finite 1, Finite 1, Finite 1, Finite 1]"]
        cosineSimilarity_unequal_lengths [of "[Finite 1, Finite 1, Finite 1, Finite 1]" "[Finite 1]"]
  by (simp add: magnitudeD_one magnitudeD_ones4 dotProductD_one_one rnd_one rnd_numeral rnd_half)

section \<open>Self-similarity\<close>

text \<open>
  Claim C9 says that \<open>cosineSimilarity v v\<close> is 1 for every vector \<open>v\<close> that is not the
  zero vector. The square of the rounded magnitude is not the sum of squares again:
  for \<open>v = [1, 1]\<close> the magnitude is the double nearest to \<open>sqrt 2\<close>, its square rounds
  to \<open>2 + 2^-51\<close>, and the result is \<open>1 - 2^-52\<close>, printed \<open>0.9999999999999998\<close>.
\<close>

theorem cosineSimilarity_self_double_counterexample:
  "cosineSimilarityD [Finite 1, Finite 1] [Finite 1, Finite 1] = Finite (1 - 1 / 2 ^ 52)
   \<and> cosineSimilarityD [Finite 1, Finite 1] [Finite 1, Finite 1] \<noteq> Finite 1"
  by (simp add: cosineSimilarityD_1_1)

text \<open>
  Claim C9, amended. When the sum of the squares of \<open>v\<close>, as the loop of \<open>magnitude\<close>
  computes it, lies between \<open>2^-1000\<close> and \<open>2^1000\<close>, \<open>cosineSimilarity v v\<close> is a
  number within \<open>2^-50\<close> of 1. Outside of this range it need not be near 1: it is 0
  for \<open>[2^-600]\<close>, whose square underflows to zero, and NaN for \<open>[2^600]\<close>, whose
  square overflows.
\<close>

theorem cosineSimilarity_self:
  assumes "sumSquaresD v = Finite s" "1 / 2 ^ 1000 \<le> s" "s \<le> 2 ^ 1000"
  shows "(\<exists>r. cosineSimilarityD v v = Finite r \<and> \<bar>r - 1\<bar> \<le> 1 / 2 ^ 50)
         \<and> cosineSimilarityD [Finite (1 / 2 ^ 600)] [Finite (1 / 2 ^ 600)] = Finite 0
         \<and> cosineSimilarityD [Finite (2 ^ 600)] [Finite (2 ^ 600)] = NotANumber"
  using self_similarity_bound [OF assms] cosineSimilarityD_tiny cosineSimilarityD_huge
  by (intro conjI)

theorem cosineSimilarity_self_witness:
  "sumSquaresD [Finite 1, Finite 1] = Finite 2
   \<and> (1 :: real) / 2 ^ 1000 \<le> 2 \<and> (2 :: real) \<le> 2 ^ 1000
   \<and> (\<exists>r. cosineSimilarityD [Finite 1, Finite 1] [Finite 1, Finite 1] = Finite r
           \<and> \<bar>r - 1\<bar> \<le> 1 / 2 ^ 50)"
proof -
  have a: "(1 :: real) / 2 ^ 1000 \<le> 2" by simp
  have b: "(2 :: real) \<le> 2 ^ 1000" by simp
  from cosineSimilarity_self [OF sumSquaresD_1_1 a b] sumSquaresD_1_1 a b
  show ?thesis by blast
qed

end
